theory Spec2Isabelle
  imports Main
begin

text \<open>
  The three transforms of the Content field between a Slate document and its stored
  form: \<^verbatim>\<open>serialiseSlateValue\<close> takes the relational data out of the blocks into
  mutation batches and leaves mutation paths in their place,
  \<^verbatim>\<open>processSerialised\<close> replaces the mutation paths by the ids the mutations returned,
  and \<^verbatim>\<open>deserialiseToSlateValue\<close> puts the fetched records back into the blocks. Block
  handlers, the Slate library and \<^verbatim>\<open>lodash.get\<close> are outside the repository's sources:
  handlers are parameters, and what is used of the libraries is modelled where it is used.
\<close>

section \<open>JavaScript values\<close>

text \<open>
  Plain JSON-like values as the three transforms see them. Numbers are integers (floating
  point is not needed by any path through the code). An object is the list of its own
  properties in enumeration order; members inherited from a prototype are not modelled.
\<close>

datatype jsval =
    JUndefined
  | JNull
  | JBool bool
  | JNum int
  | JStr string
  | JArr "jsval list"
  | JObj "(string \<times> jsval) list"

type_synonym jsobj = "(string \<times> jsval) list"

text \<open>JavaScript's \<^verbatim>\<open>!!v\<close>.\<close>

fun truthy :: "jsval \<Rightarrow> bool" where
  "truthy JUndefined = False"
| "truthy JNull = False"
| "truthy (JBool b) = b"
| "truthy (JNum n) = (n \<noteq> 0)"
| "truthy (JStr s) = (s \<noteq> [])"
| "truthy (JArr xs) = True"
| "truthy (JObj kvs) = True"

text \<open>
  \<^verbatim>\<open>a === b\<close> for two values that were built separately (a document and a fetched
  record): primitives compare by value, arrays and objects by reference, so two
  separately built ones are never equal.
\<close>

fun strict_eq :: "jsval \<Rightarrow> jsval \<Rightarrow> bool" where
  "strict_eq (JArr xs) b = False"
| "strict_eq (JObj kvs) b = False"
| "strict_eq a b = (a = b)"

text \<open>Decimal rendering of an array index, as a template string prints a number.\<close>

definition digit_char :: "nat \<Rightarrow> char" where
  "digit_char d = ''0123456789'' ! d"

fun show_nat :: "nat \<Rightarrow> string" where
  "show_nat n = (if n < 10 then [digit_char n] else show_nat (n div 10) @ [digit_char (n mod 10)])"

declare show_nat.simps [simp del]

text \<open>\<^verbatim>\<open>o[k]\<close> for a string key: own properties only.\<close>

fun index_of_key :: "string \<Rightarrow> nat \<Rightarrow> nat option" where
  "index_of_key k 0 = None"
| "index_of_key k (Suc n) =
     (case index_of_key k n of Some i \<Rightarrow> Some i
      | None \<Rightarrow> if show_nat n = k then Some n else None)"

fun get_prop :: "jsval \<Rightarrow> string \<Rightarrow> jsval" where
  "get_prop (JObj kvs) k = (case map_of kvs k of Some v \<Rightarrow> v | None \<Rightarrow> JUndefined)"
| "get_prop (JArr xs) k =
     (if k = ''length'' then JNum (int (length xs))
      else case index_of_key k (length xs) of Some i \<Rightarrow> xs ! i | None \<Rightarrow> JUndefined)"
| "get_prop (JStr s) k =
     (if k = ''length'' then JNum (int (length s))
      else case index_of_key k (length s) of Some i \<Rightarrow> JStr [s ! i] | None \<Rightarrow> JUndefined)"
| "get_prop v k = JUndefined"

text \<open>\<^verbatim>\<open>k in o\<close> restricted to own properties.\<close>

fun has_prop :: "jsval \<Rightarrow> string \<Rightarrow> bool" where
  "has_prop (JObj kvs) k = (map_of kvs k \<noteq> None)"
| "has_prop (JArr xs) k = (k = ''length'' \<or> index_of_key k (length xs) \<noteq> None)"
| "has_prop (JStr s) k = (k = ''length'' \<or> index_of_key k (length s) \<noteq> None)"
| "has_prop v k = False"

text \<open>\<^verbatim>\<open>{...a, ...b}\<close>: a key of \<open>b\<close> already in \<open>a\<close> keeps its place and takes the new value.\<close>

fun obj_set :: "jsobj \<Rightarrow> string \<Rightarrow> jsval \<Rightarrow> jsobj" where
  "obj_set [] k v = [(k, v)]"
| "obj_set ((k', v') # kvs) k v = (if k' = k then (k, v) # kvs else (k', v') # obj_set kvs k v)"

definition spread :: "jsobj \<Rightarrow> jsobj \<Rightarrow> jsobj" where
  "spread a b = foldl (\<lambda>acc (k, v). obj_set acc k v) a b"

subsection \<open>The key-path lookup (\<^verbatim>\<open>lodash.get\<close>)\<close>

text \<open>
  \<^verbatim>\<open>import getByPath from 'lodash.get'\<close> is a third-party library. For a string path
  it uses the whole string as one key when the string has no path syntax in it or when
  it names a property of the object; otherwise it cuts the string into keys at
  \<^verbatim>\<open>.\<close>, \<^verbatim>\<open>[\<close> and \<^verbatim>\<open>]\<close> and follows them, stopping with \<^verbatim>\<open>undefined\<close> at the first
  \<^verbatim>\<open>null\<close> or \<^verbatim>\<open>undefined\<close>. The tokeniser below agrees with the library on paths whose
  segments are non-empty and unquoted and whose bracketed parts are integers, which
  covers every path the serialiser writes for a path and an action without path syntax
  of their own; quoted keys and empty segments are not modelled.
\<close>

definition is_path_syntax :: "char \<Rightarrow> bool" where
  "is_path_syntax c = (c = CHR ''.'' \<or> c = CHR ''['' \<or> c = CHR '']'')"

fun bracket_group :: "bool \<Rightarrow> string \<Rightarrow> bool" where
  "bracket_group inside [] = False"
| "bracket_group inside (c # cs) =
     (if c = CHR ''['' then bracket_group True cs
      else if c = CHR '']'' then (inside \<or> bracket_group False cs)
      else bracket_group inside cs)"

definition isDeepProp :: "string \<Rightarrow> bool" where
  "isDeepProp s = (CHR ''.'' \<in> set s \<or> bracket_group False s)"

definition isKey :: "string \<Rightarrow> jsval \<Rightarrow> bool" where
  "isKey s obj = (\<not> isDeepProp s \<or> has_prop obj s)"

fun split_path :: "string \<Rightarrow> string \<Rightarrow> string list" where
  "split_path cur [] = (if cur = [] then [] else [cur])"
| "split_path cur (c # cs) =
     (if is_path_syntax c then (if cur = [] then [] else [cur]) @ split_path [] cs
      else split_path (cur @ [c]) cs)"

definition stringToPath :: "string \<Rightarrow> string list" where
  "stringToPath s = split_path [] s"

fun baseGet :: "jsval \<Rightarrow> string list \<Rightarrow> jsval" where
  "baseGet v [] = v"
| "baseGet JUndefined (k # ks) = JUndefined"
| "baseGet JNull (k # ks) = JUndefined"
| "baseGet v (k # ks) = baseGet (get_prop v k) ks"

definition getByPath :: "jsval \<Rightarrow> string \<Rightarrow> jsval" where
  "getByPath obj p =
     (case obj of
        JUndefined \<Rightarrow> JUndefined
      | JNull \<Rightarrow> JUndefined
      | _ \<Rightarrow> (let ks = (if isKey p obj then [p] else stringToPath p)
             in if ks = [] then JUndefined else baseGet obj ks))"

section \<open>Errors\<close>

text \<open>
  Every \<^verbatim>\<open>throw\<close> of the three transforms, one constructor per throw site, plus the
  assertion of \<^verbatim>\<open>nanoassert\<close>, the run-time \<^verbatim>\<open>TypeError\<close> of calling a method on
  a value that does not have it, and the \<^verbatim>\<open>RangeError\<close> of a recursion deeper than the
  call stack.
\<close>

datatype error =
    MissingSerializedNode
  | NoMutationPath string
  | NoBlockForType "string option"
  | UnknownMutation string
  | NotASlateNode
  | AssertionError string
  | TypeError
  | RangeError

text \<open>The spec's taxonomy of these errors (section 7).\<close>

fun is_ConfigurationError :: "error \<Rightarrow> bool" where
  "is_ConfigurationError MissingSerializedNode = True"
| "is_ConfigurationError (NoMutationPath t) = True"
| "is_ConfigurationError (NoBlockForType t) = True"
| "is_ConfigurationError (UnknownMutation p) = True"
| "is_ConfigurationError e = False"

fun is_PreconditionError :: "error \<Rightarrow> bool" where
  "is_PreconditionError (AssertionError m) = True"
| "is_PreconditionError e = False"

section \<open>Document trees\<close>

text \<open>
  A node's \<^verbatim>\<open>data\<close>: the two keys the transforms read and write,
  \<^verbatim>\<open>_mutationPaths\<close> and \<^verbatim>\<open>_joinIds\<close>, each absent or an array, and every other key.
\<close>

record ndata =
  mutationPaths :: "string list option"
  joinIds :: "jsval list option"
  props :: jsobj

text \<open>
  A node: its \<^verbatim>\<open>object\<close> kind tag, its \<^verbatim>\<open>type\<close>, its \<^verbatim>\<open>data\<close>, its \<^verbatim>\<open>nodes\<close>
  (absent on a leaf) and whatever other fields it has. Slate's immutable nodes and their
  JSON projection have the same shape and are the same type here.
\<close>

datatype node =
  Node (object: string) (ntype: "string option") (data: "ndata option")
       (nodes: "node list option") (rest: jsobj)

fun set_data :: "ndata option \<Rightarrow> node \<Rightarrow> node" where
  "set_data d (Node ob ty da ns re) = Node ob ty d ns re"

fun set_nodes :: "node list option \<Rightarrow> node \<Rightarrow> node" where
  "set_nodes ns (Node ob ty da ns' re) = Node ob ty da ns re"

lemma size_child [termination_simp]:
  "nodes n = Some cs \<Longrightarrow> c \<in> set cs \<Longrightarrow> size c < size n"
  by (cases n) (auto simp: less_Suc_eq_le dest: size_list_estimation'[where f = size and y = "size c", OF _ order_refl])

text \<open>
  \<^verbatim>\<open>shallowNodeToJson\<close>: the JSON projection of one node with its child list emptied, so
  that the projection does not descend.
\<close>

definition shallowNodeToJson :: "node \<Rightarrow> node" where
  "shallowNodeToJson n = (case nodes n of Some cs \<Rightarrow> set_nodes (Some []) n | None \<Rightarrow> n)"

section \<open>Block handlers\<close>

record slate_value =
  document :: node

text \<open>What \<^verbatim>\<open>block.serialize({ value, node })\<close> returns: \<^verbatim>\<open>{ mutations, node }\<close>, either
  of which may be absent. \<open>mutations\<close> lists the entries of the map in the order
  \<^verbatim>\<open>Object.entries\<close> gives them.\<close>

record serialize_result =
  mutations :: "jsobj option"
  node :: "node option"

text \<open>
  A block handler. \<open>deserialize\<close> returns a Slate node (\<open>Inr\<close>) or any other value
  (\<open>Inl\<close>), among them \<^verbatim>\<open>null\<close> and \<^verbatim>\<open>undefined\<close>; each of its \<open>joins\<close> is a fetched
  record or \<^verbatim>\<open>undefined\<close> (\<open>None\<close>).
\<close>

record block =
  btype :: string
  path :: "string option"
  serialize :: "slate_value \<Rightarrow> node \<Rightarrow> serialize_result"
  deserialize :: "node \<Rightarrow> jsobj option list \<Rightarrow> jsval + node"
  getMutationOperationResults :: "jsval \<Rightarrow> jsobj"

text \<open>\<^verbatim>\<open>blocks[node.type]\<close> and \<^verbatim>\<open>serializations[block.path]\<close> turn an absent key into
  the string \<^verbatim>\<open>undefined\<close>.\<close>

definition prop_key :: "string option \<Rightarrow> string" where
  "prop_key k = (case k of Some s \<Rightarrow> s | None \<Rightarrow> ''undefined'')"

section \<open>The tree walker\<close>

text \<open>
  A visitor runs against a state that it may change (the serialiser's
  \<^verbatim>\<open>allMutations\<close>) and may throw.
\<close>

type_synonym ('s, 'a) visit = "'s \<Rightarrow> error + 'a \<times> 's"

text \<open>
  Modelled from the spec: \<^verbatim>\<open>walkSlateNode\<close> of \<^verbatim>\<open>./slate-walker\<close>, which both source
  files import and which is not among them. Section 4.1: on a block-kind node call
  \<^verbatim>\<open>visitBlock\<close>; a result other than \<^verbatim>\<open>null\<close>/\<^verbatim>\<open>undefined\<close> replaces the node and
  its subtree is not visited further; otherwise, and for every other kind of node, call
  \<^verbatim>\<open>defaultVisitor(node, recurse)\<close>, where \<open>recurse\<close> is the walk itself. Here
  \<open>defaultVisitor\<close> is already applied to \<open>recurse\<close>; each transform below ties that knot.
\<close>

definition walkSlateNode ::
  "(node \<Rightarrow> ('s, 'r option) visit) \<Rightarrow> (node \<Rightarrow> ('s, 'r) visit) \<Rightarrow> node \<Rightarrow> ('s, 'r) visit" where
  "walkSlateNode visitBlock defaultVisitor n s =
     (if object n = ''block'' then
        (case visitBlock n s of
           Inl e \<Rightarrow> Inl e
         | Inr (Some v, s') \<Rightarrow> Inr (v, s')
         | Inr (None, s') \<Rightarrow> defaultVisitor n s')
      else defaultVisitor n s)"

lemma walkSlateNode_cong [fundef_cong]:
  assumes "n = n'" "s = s'" "vb = vb'" "\<And>t. dv n' t = dv' n' t"
  shows "walkSlateNode vb dv n s = walkSlateNode vb' dv' n' s'"
  using assms by (auto simp: walkSlateNode_def split: sum.splits option.splits prod.splits)

text \<open>\<^verbatim>\<open>children.map(child => visitNode(child))\<close>, left to right, stopping at a throw.\<close>

fun map_visit :: "('a \<Rightarrow> ('s, 'b) visit) \<Rightarrow> 'a list \<Rightarrow> ('s, 'b list) visit" where
  "map_visit f [] s = Inr ([], s)"
| "map_visit f (x # xs) s =
     (case f x s of
        Inl e \<Rightarrow> Inl e
      | Inr (y, s') \<Rightarrow>
          (case map_visit f xs s' of
             Inl e \<Rightarrow> Inl e
           | Inr (ys, s'') \<Rightarrow> Inr (y # ys, s'')))"

lemma map_visit_cong [fundef_cong]:
  assumes "xs = ys" "s = t" "\<And>x u. x \<in> set ys \<Longrightarrow> f x u = g x u"
  shows "map_visit f xs s = map_visit g ys t"
  using assms(3) unfolding assms(1,2)
  by (induction ys arbitrary: t) (auto split: sum.splits prod.splits)

section \<open>The mutation path resolver (\<^verbatim>\<open>processSerialised\<close>)\<close>

text \<open>The reduce over the handlers: \<^verbatim>\<open>{...mutations, ...block.getMutationOperationResults(args)}\<close>.\<close>

definition resolvedMutations :: "block list \<Rightarrow> jsval \<Rightarrow> jsval" where
  "resolvedMutations blocks graphQlArgs =
     JObj (foldl (\<lambda>mutations block. spread mutations (getMutationOperationResults block graphQlArgs))
             [] blocks)"

text \<open>\<^verbatim>\<open>node.data._mutationPaths.map(...)\<close>: the first path whose lookup is falsy throws.\<close>

fun resolve_joinIds :: "jsval \<Rightarrow> string list \<Rightarrow> error + jsval list" where
  "resolve_joinIds resolved [] = Inr []"
| "resolve_joinIds resolved (mutationPath # ps) =
     (let joinId = getByPath resolved mutationPath in
      if \<not> truthy joinId then Inl (UnknownMutation mutationPath)
      else case resolve_joinIds resolved ps of
             Inl e \<Rightarrow> Inl e
           | Inr ids \<Rightarrow> Inr (joinId # ids))"

text \<open>\<^verbatim>\<open>visitBlock\<close>: a block without \<^verbatim>\<open>data._mutationPaths\<close> is returned as it is; one
  with them is returned as \<^verbatim>\<open>{ ...node, data: { _joinIds } }\<close>.\<close>

definition resolve_visitBlock :: "block list \<Rightarrow> jsval \<Rightarrow> node \<Rightarrow> (unit, node option) visit" where
  "resolve_visitBlock blocks resolved n s =
     (case (case data n of None \<Rightarrow> None | Some d \<Rightarrow> mutationPaths d) of
        None \<Rightarrow> Inr (Some n, s)
      | Some paths \<Rightarrow>
          (case find (\<lambda>b. Some (btype b) = ntype n) blocks of
             None \<Rightarrow> Inl (NoBlockForType (ntype n))
           | Some block \<Rightarrow>
               (case resolve_joinIds resolved paths of
                  Inl e \<Rightarrow> Inl e
                | Inr ids \<Rightarrow>
                    Inr (Some (set_data (Some \<lparr>mutationPaths = None, joinIds = Some ids, props = []\<rparr>) n),
                         s))))"

text \<open>
  \<^verbatim>\<open>defaultVisitor\<close> assigns \<^verbatim>\<open>node.nodes\<close> and returns the node. On a tree that is the
  node with the visited children; the assignment itself is kept in the section on the
  store below.
\<close>

definition resolve_defaultVisitor :: "node \<Rightarrow> (node \<Rightarrow> ('s, node) visit) \<Rightarrow> ('s, node) visit" where
  "resolve_defaultVisitor n visitNode s =
     (case nodes n of
        Some cs \<Rightarrow>
          (case map_visit visitNode cs s of
             Inl e \<Rightarrow> Inl e
           | Inr (cs', s') \<Rightarrow> Inr (set_nodes (Some cs') n, s'))
      | None \<Rightarrow> Inr (n, s))"

lemma resolve_defaultVisitor_cong [fundef_cong]:
  assumes "n = n'" "s = s'" "\<And>c cs t. nodes n' = Some cs \<Longrightarrow> c \<in> set cs \<Longrightarrow> f c t = g c t"
  shows "resolve_defaultVisitor n f s = resolve_defaultVisitor n' g s'"
proof -
  have "map_visit f cs s' = map_visit g cs s'" if "nodes n' = Some cs" for cs
    using assms(3)[OF that] by (intro map_visit_cong) auto
  then show ?thesis
    unfolding assms(1,2) resolve_defaultVisitor_def by (auto split: option.splits)
qed

fun resolve_walk :: "block list \<Rightarrow> jsval \<Rightarrow> node \<Rightarrow> (unit, node) visit" where
  "resolve_walk blocks resolved n s =
     walkSlateNode (resolve_visitBlock blocks resolved)
       (\<lambda>m. resolve_defaultVisitor m (\<lambda>c t. resolve_walk blocks resolved c t)) n s"

declare resolve_walk.simps [simp del]

text \<open>The function is \<^verbatim>\<open>async\<close>: a throw inside it is the rejection of its promise. Its
  result \<^verbatim>\<open>{ document }\<close> has the one field of a \<open>slate_value\<close>.\<close>

definition processSerialised :: "node \<Rightarrow> block list \<Rightarrow> jsval \<Rightarrow> error + slate_value" where
  "processSerialised doc blocks graphQlArgs =
     (case resolve_walk blocks (resolvedMutations blocks graphQlArgs) doc () of
        Inl e \<Rightarrow> Inl e
      | Inr (d, u) \<Rightarrow> Inr \<lparr>document = d\<rparr>)"

section \<open>The serialiser (\<^verbatim>\<open>serialiseSlateValue\<close>)\<close>

text \<open>
  \<^verbatim>\<open>allMutations\<close>: the batches by path. A batch is the object
  \<^verbatim>\<open>{ disconnectAll: true, [action]: [...] }\<close>.
\<close>

type_synonym batches = "string \<rightharpoonup> jsobj"

text \<open>The template string \<^verbatim>\<open>`${block.path}.${action}[${insertedBefore - 1}]`\<close>.\<close>

definition mutationPath :: "string \<Rightarrow> string \<Rightarrow> nat \<Rightarrow> string" where
  "mutationPath p action i = p @ ''.'' @ action @ ''['' @ show_nat i @ '']''"

text \<open>A \<^verbatim>\<open>forEach\<close> whose body may throw.\<close>

fun forEach :: "('a \<Rightarrow> 's \<Rightarrow> error + 's) \<Rightarrow> 'a list \<Rightarrow> 's \<Rightarrow> error + 's" where
  "forEach f [] s = Inr s"
| "forEach f (x # xs) s = (case f x s of Inl e \<Rightarrow> Inl e | Inr s' \<Rightarrow> forEach f xs s')"

text \<open>
  The inner loop body. The state is \<^verbatim>\<open>allMutations\<close> and the node's
  \<^verbatim>\<open>data._mutationPaths\<close>. \<^verbatim>\<open>push\<close> exists on arrays only: for the action
  \<^verbatim>\<open>disconnectAll\<close> the batch holds \<^verbatim>\<open>true\<close> under that key and the call throws.
\<close>

definition push_mutation ::
  "string \<Rightarrow> string \<Rightarrow> jsval \<Rightarrow> batches \<times> string list \<Rightarrow> error + batches \<times> string list" where
  "push_mutation p action mutation st =
     (case st of (allMutations, paths) \<Rightarrow>
        (case allMutations p of
           None \<Rightarrow> Inl TypeError
         | Some batch \<Rightarrow>
             (case get_prop (JObj batch) action of
                JArr xs \<Rightarrow>
                  (let insertedBefore = length (xs @ [mutation]) in
                   Inr (allMutations(p \<mapsto> obj_set batch action (JArr (xs @ [mutation]))),
                        paths @ [mutationPath p action (insertedBefore - 1)]))
              | _ \<Rightarrow> Inl TypeError)))"

text \<open>\<^verbatim>\<open>Array.isArray(mutationData) ? mutationData : [mutationData]\<close>.\<close>

definition normalise_mutationData :: "jsval \<Rightarrow> jsval list" where
  "normalise_mutationData mutationData = (case mutationData of JArr ms \<Rightarrow> ms | v \<Rightarrow> [v])"

text \<open>The outer loop body, for one \<^verbatim>\<open>[action, mutationData]\<close> entry.\<close>

definition gather_action ::
  "string \<Rightarrow> string \<times> jsval \<Rightarrow> batches \<times> string list \<Rightarrow> error + batches \<times> string list" where
  "gather_action p entry st =
     (case entry of (action, mutationData) \<Rightarrow>
      case st of (allMutations, paths) \<Rightarrow>
        (case allMutations p of
           None \<Rightarrow> Inl TypeError
         | Some batch \<Rightarrow>
             (let cur = get_prop (JObj batch) action;
                  batch' = obj_set batch action (if truthy cur then cur else JArr []);
                  mutationData' = normalise_mutationData mutationData
              in forEach (push_mutation p action) mutationData' (allMutations(p \<mapsto> batch'), paths))))"

definition empty_data :: ndata where
  "empty_data = \<lparr>mutationPaths = None, joinIds = None, props = []\<rparr>"

text \<open>\<^verbatim>\<open>mutations && Object.keys(mutations).length\<close>.\<close>

definition has_mutations :: "jsobj option \<Rightarrow> bool" where
  "has_mutations ms = (case ms of None \<Rightarrow> False | Some kvs \<Rightarrow> length kvs \<noteq> 0)"

text \<open>\<^verbatim>\<open>!block.path\<close>: no path, or the empty string.\<close>

definition no_path :: "string option \<Rightarrow> bool" where
  "no_path p = (case p of None \<Rightarrow> True | Some s \<Rightarrow> s = [])"

definition serialise_visitBlock ::
  "slate_value \<Rightarrow> (string \<rightharpoonup> block) \<Rightarrow> node \<Rightarrow> (batches, node option) visit" where
  "serialise_visitBlock val blocks n allMutations =
     (case blocks (prop_key (ntype n)) of
        None \<Rightarrow> Inr (None, allMutations)
      | Some block \<Rightarrow>
          (let r = serialize block val n in
           if has_mutations (mutations r) then
             (case node r of
                None \<Rightarrow> Inl MissingSerializedNode
              | Some serializedNode \<Rightarrow>
                  if no_path (path block) then Inl (NoMutationPath (btype block))
                  else
                    (let p = the (path block);
                         allMutations1 =
                           (case allMutations p of
                              Some batch \<Rightarrow> allMutations
                            | None \<Rightarrow> allMutations(p \<mapsto> [(''disconnectAll'', JBool True)]));
                         d = (case data serializedNode of Some d \<Rightarrow> d | None \<Rightarrow> empty_data);
                         paths0 = (case mutationPaths d of Some ps \<Rightarrow> ps | None \<Rightarrow> [])
                     in case forEach (gather_action p) (the (mutations r)) (allMutations1, paths0) of
                          Inl e \<Rightarrow> Inl e
                        | Inr (allMutations2, paths) \<Rightarrow>
                            Inr (Some (set_data (Some (d\<lparr>mutationPaths := Some paths\<rparr>)) serializedNode),
                                 allMutations2)))
           else Inr (node r, allMutations)))"

definition serialise_defaultVisitor :: "node \<Rightarrow> (node \<Rightarrow> ('s, node) visit) \<Rightarrow> ('s, node) visit" where
  "serialise_defaultVisitor n visitNode s =
     (let visitedNode = shallowNodeToJson n in
      case nodes n of
        Some cs \<Rightarrow>
          (case map_visit visitNode cs s of
             Inl e \<Rightarrow> Inl e
           | Inr (cs', s') \<Rightarrow> Inr (set_nodes (Some cs') visitedNode, s'))
      | None \<Rightarrow> Inr (visitedNode, s))"

lemma serialise_defaultVisitor_cong [fundef_cong]:
  assumes "n = n'" "s = s'" "\<And>c cs t. nodes n' = Some cs \<Longrightarrow> c \<in> set cs \<Longrightarrow> f c t = g c t"
  shows "serialise_defaultVisitor n f s = serialise_defaultVisitor n' g s'"
proof -
  have "map_visit f cs s' = map_visit g cs s'" if "nodes n' = Some cs" for cs
    using assms(3)[OF that] by (intro map_visit_cong) auto
  then show ?thesis
    unfolding assms(1,2) serialise_defaultVisitor_def by (auto simp: Let_def split: option.splits)
qed

fun serialise_walk :: "slate_value \<Rightarrow> (string \<rightharpoonup> block) \<Rightarrow> node \<Rightarrow> (batches, node) visit" where
  "serialise_walk val blocks n s =
     walkSlateNode (serialise_visitBlock val blocks)
       (\<lambda>m. serialise_defaultVisitor m (\<lambda>c t. serialise_walk val blocks c t)) n s"

declare serialise_walk.simps [simp del]

text \<open>
  The returned object \<^verbatim>\<open>{ document: serializedDocument, ...allMutations }\<close>: under each
  key either the document or a batch. A batch whose path is \<^verbatim>\<open>document\<close> takes that key.
\<close>

datatype serialised_entry = Document node | Batch jsobj

definition serialised_object :: "node \<Rightarrow> batches \<Rightarrow> (string \<rightharpoonup> serialised_entry)" where
  "serialised_object serializedDocument allMutations =
     (\<lambda>k. case allMutations k of
             Some batch \<Rightarrow> Some (Batch batch)
           | None \<Rightarrow> if k = ''document'' then Some (Document serializedDocument) else None)"

definition serialiseSlateValue ::
  "slate_value \<Rightarrow> (string \<rightharpoonup> block) \<Rightarrow> error + (string \<rightharpoonup> serialised_entry)" where
  "serialiseSlateValue val blocks =
     (case serialise_walk val blocks (document val) Map.empty of
        Inl e \<Rightarrow> Inl e
      | Inr (serializedDocument, allMutations) \<Rightarrow>
          Inr (serialised_object serializedDocument allMutations))"

section \<open>The deserialiser (\<^verbatim>\<open>deserialiseToSlateValue\<close>)\<close>

text \<open>The \<^verbatim>\<open>id\<close> a record is destructured to.\<close>

definition record_id :: "jsobj \<Rightarrow> jsval" where
  "record_id r = get_prop (JObj r) ''id''"

text \<open>
  \<^verbatim>\<open>(nodeData && nodeData.size && nodeData.get('_joinIds')) || []\<close>: \<open>size\<close> counts the
  keys of the data map.
\<close>

definition data_size :: "ndata \<Rightarrow> nat" where
  "data_size d =
     (case mutationPaths d of None \<Rightarrow> 0 | Some ps \<Rightarrow> 1) + (case joinIds d of None \<Rightarrow> 0 | Some ids \<Rightarrow> 1)
       + length (props d)"

definition node_joinIds :: "node \<Rightarrow> jsval list" where
  "node_joinIds n =
     (case data n of
        None \<Rightarrow> []
      | Some nodeData \<Rightarrow>
          if data_size nodeData = 0 then []
          else (case joinIds nodeData of None \<Rightarrow> [] | Some ids \<Rightarrow> ids))"

text \<open>
  \<^verbatim>\<open>joinIds.map(joinId => data.find(({ id }) => joinId === id))\<close>. The callback runs once
  per join id; \<^verbatim>\<open>data\<close> is \<^verbatim>\<open>undefined\<close> when nothing was fetched under the path, and
  reading \<^verbatim>\<open>find\<close> off it throws.
\<close>

fun find_joins :: "jsobj list option \<Rightarrow> jsval list \<Rightarrow> error + jsobj option list" where
  "find_joins recs [] = Inr []"
| "find_joins None (joinId # ids) = Inl TypeError"
| "find_joins (Some recs) (joinId # ids) =
     (case find_joins (Some recs) ids of
        Inl e \<Rightarrow> Inl e
      | Inr js \<Rightarrow> Inr (find (\<lambda>r. strict_eq joinId (record_id r)) recs # js))"

definition deserialise_visitBlock ::
  "(string \<rightharpoonup> jsobj list) \<Rightarrow> (string \<rightharpoonup> block) \<Rightarrow> node \<Rightarrow> (unit, node option) visit" where
  "deserialise_visitBlock serializations blocks n s =
     (case blocks (prop_key (ntype n)) of
        None \<Rightarrow> Inr (None, s)
      | Some block \<Rightarrow>
          (let recs = serializations (prop_key (path block)) in
           case find_joins recs (node_joinIds n) of
             Inl e \<Rightarrow> Inl e
           | Inr joins \<Rightarrow>
               (case deserialize block n joins of
                  Inl v \<Rightarrow> if \<not> truthy v then Inr (None, s) else Inl NotASlateNode
                | Inr newNode \<Rightarrow> Inr (Some newNode, s))))"

definition deserialise_defaultVisitor :: "node \<Rightarrow> (node \<Rightarrow> ('s, node) visit) \<Rightarrow> ('s, node) visit" where
  "deserialise_defaultVisitor n visitNode s =
     (case nodes n of
        Some cs \<Rightarrow>
          (case map_visit visitNode cs s of
             Inl e \<Rightarrow> Inl e
           | Inr (cs', s') \<Rightarrow> Inr (set_nodes (Some cs') n, s'))
      | None \<Rightarrow> Inr (n, s))"

lemma deserialise_defaultVisitor_cong [fundef_cong]:
  assumes "n = n'" "s = s'" "\<And>c cs t. nodes n' = Some cs \<Longrightarrow> c \<in> set cs \<Longrightarrow> f c t = g c t"
  shows "deserialise_defaultVisitor n f s = deserialise_defaultVisitor n' g s'"
proof -
  have "map_visit f cs s' = map_visit g cs s'" if "nodes n' = Some cs" for cs
    using assms(3)[OF that] by (intro map_visit_cong) auto
  then show ?thesis
    unfolding assms(1,2) deserialise_defaultVisitor_def by (auto split: option.splits)
qed

fun deserialise_walk ::
  "(string \<rightharpoonup> jsobj list) \<Rightarrow> (string \<rightharpoonup> block) \<Rightarrow> node \<Rightarrow> (unit, node) visit" where
  "deserialise_walk serializations blocks n s =
     walkSlateNode (deserialise_visitBlock serializations blocks)
       (\<lambda>m. deserialise_defaultVisitor m (\<lambda>c t. deserialise_walk serializations blocks c t)) n s"

declare deserialise_walk.simps [simp del]

text \<open>
  The argument \<^verbatim>\<open>{ document, ...serializations }\<close> and \<^verbatim>\<open>blocks\<close>, either of which the
  caller may leave out. \<^verbatim>\<open>Value.fromJSON\<close> and \<^verbatim>\<open>value.set\<close> belong to Slate; JSON and
  Slate trees being one type here, the first wraps the document and the second replaces it.
\<close>

definition deserialiseToSlateValue ::
  "node option \<Rightarrow> (string \<rightharpoonup> jsobj list) \<Rightarrow> (string \<rightharpoonup> block) option \<Rightarrow> error + slate_value" where
  "deserialiseToSlateValue doc serializations blocks =
     (case doc of
        None \<Rightarrow> Inl (AssertionError ''Must pass document to deserialiseToSlateValue()'')
      | Some d \<Rightarrow>
          (case blocks of
             None \<Rightarrow> Inl (AssertionError ''Must pass blocks to deserialiseToSlateValue()'')
           | Some bs \<Rightarrow>
               (let val = \<lparr>document = d\<rparr> in
                case deserialise_walk serializations bs (document val) () of
                  Inl e \<Rightarrow> Inl e
                | Inr (d', u) \<Rightarrow> Inr (val\<lparr>document := d'\<rparr>))))"

section \<open>Outcome predicates and example inputs\<close>

definition throws_ConfigurationError :: "error + 'a \<Rightarrow> bool" where
  "throws_ConfigurationError r = (case r of Inl e \<Rightarrow> is_ConfigurationError e | Inr v \<Rightarrow> False)"

definition throws_PreconditionError :: "error + 'a \<Rightarrow> bool" where
  "throws_PreconditionError r = (case r of Inl e \<Rightarrow> is_PreconditionError e | Inr v \<Rightarrow> False)"

text \<open>A handler for the type \<^verbatim>\<open>image\<close> with a given path, a fixed answer to
  \<open>serialize\<close> and to \<open>deserialize\<close>, and given mutation results.\<close>

definition image_block ::
  "string option \<Rightarrow> serialize_result \<Rightarrow> (jsval + node) \<Rightarrow> jsobj \<Rightarrow> block" where
  "image_block p r d res =
     \<lparr>btype = ''image'', path = p, serialize = (\<lambda>v n. r), deserialize = (\<lambda>n joins. d),
      getMutationOperationResults = (\<lambda>args. res)\<rparr>"

definition image_node :: "ndata option \<Rightarrow> node" where
  "image_node d = Node ''block'' (Some ''image'') d None []"

definition file_data :: ndata where
  "file_data = \<lparr>mutationPaths = None, joinIds = None,
                 props = [(''file'', JStr ''F''), (''align'', JStr ''center'')]\<rparr>"

text \<open>A data map holding only \<^verbatim>\<open>_mutationPaths\<close>; a block of another type around one
  child; the results \<^verbatim>\<open>{ images: { create: [...] } }\<close>.\<close>

definition paths_data :: "string list \<Rightarrow> ndata" where
  "paths_data ps = \<lparr>mutationPaths = Some ps, joinIds = None, props = []\<rparr>"

definition quote_node :: "node \<Rightarrow> node" where
  "quote_node child = Node ''block'' (Some ''quote'') None (Some [child]) []"

definition images_results :: "jsval list \<Rightarrow> jsobj" where
  "images_results rs = [(''images'', JObj [(''create'', JArr rs)])]"

text \<open>Two answers of a handler to \<open>serialize\<close>: the one of the spec's scenario, with the
  mutation \<^verbatim>\<open>create: { file, align }\<close>, and one whose only action has no entries.\<close>

definition create_file :: serialize_result where
  "create_file =
     \<lparr>mutations = Some [(''create'', JObj [(''file'', JStr ''F''), (''align'', JStr ''center'')])],
      node = Some (image_node (Some empty_data))\<rparr>"


text \<open>The answer \<^verbatim>\<open>{ mutations: { create: [m0, m1] }, node }\<close>, and a handler for the type
  \<^verbatim>\<open>image\<close> that gives it under the path \<open>P\<close> and whose mutation results are
  \<^verbatim>\<open>{ [P]: { create: rs } }\<close>.\<close>

definition two_creates :: "jsval \<Rightarrow> jsval \<Rightarrow> node \<Rightarrow> serialize_result" where
  "two_creates m0 m1 sn = \<lparr>mutations = Some [(''create'', JArr [m0, m1])], node = Some sn\<rparr>"

definition pair_block :: "string \<Rightarrow> jsval list \<Rightarrow> block" where
  "pair_block P rs =
     image_block (Some P) (two_creates (JStr ''m0'') (JStr ''m1'') (image_node None)) (Inl JNull)
       [(P, JObj [(''create'', JArr rs)])]"

section \<open>What the resolver's walk reaches\<close>

text \<open>\<^verbatim>\<open>node.data._mutationPaths\<close>, absent when the node has no data.\<close>

definition node_mutationPaths :: "node \<Rightarrow> string list option" where
  "node_mutationPaths n = (case data n of None \<Rightarrow> None | Some d \<Rightarrow> mutationPaths d)"

text \<open>
  The block nodes on which the resolver's walk calls \<open>visitBlock\<close> when nothing throws
  before: the resolver's \<open>visitBlock\<close> always returns a node, so the walk stops at every
  block, and it descends through every other node that has children.
\<close>

fun resolve_visited :: "node \<Rightarrow> node list" where
  "resolve_visited n =
     (if object n = ''block'' then [n]
      else case nodes n of None \<Rightarrow> [] | Some cs \<Rightarrow> concat (map resolve_visited cs))"

declare resolve_visited.simps [simp del]

text \<open>A node whose mutation paths cannot be resolved: no handler has its type, or one of
  its paths looks up to a falsy value.\<close>

definition dangling :: "block list \<Rightarrow> jsval \<Rightarrow> node \<Rightarrow> bool" where
  "dangling blocks resolved n =
     (case node_mutationPaths n of
        None \<Rightarrow> False
      | Some paths \<Rightarrow>
          find (\<lambda>b. Some (btype b) = ntype n) blocks = None
          \<or> (\<exists>p\<in>set paths. \<not> truthy (getByPath resolved p)))"

section \<open>The joins of a node\<close>


text \<open>A data map holding only \<^verbatim>\<open>_joinIds\<close>, and the fetched image record of the spec's
  scenario.\<close>

definition joins_data :: "jsval list \<Rightarrow> ndata" where
  "joins_data ids = \<lparr>mutationPaths = None, joinIds = Some ids, props = []\<rparr>"

definition image_record :: jsobj where
  "image_record =
     [(''id'', JStr ''abc123''), (''publicUrl'', JStr ''http://x''), (''align'', JStr ''center'')]"

section \<open>What the serialiser's walk reaches\<close>









section \<open>The resolver on a store\<close>

text \<open>
  \<^verbatim>\<open>processSerialised\<close> works on plain JavaScript objects and assigns to them. To see
  that, the document is put in a store: an address is an index into the list of
  objects, a node's \<^verbatim>\<open>nodes\<close> is the list of its children's addresses, and
  \<^verbatim>\<open>{ ...node, data }\<close> allocates a new object at the end. The arrays themselves are
  never written to (\<^verbatim>\<open>map\<close> builds a new one), so they are values. An address outside
  the store stands for a child that is \<^verbatim>\<open>null\<close>; reading a field off it throws.
\<close>

type_synonym addr = nat

record hnode =
  h_object :: string
  h_type :: "string option"
  h_data :: "ndata option"
  h_nodes :: "addr list option"
  h_rest :: jsobj

type_synonym heap = "hnode list"

definition deref :: "heap \<Rightarrow> addr \<Rightarrow> hnode option" where
  "deref h a = (if a < length h then Some (h ! a) else None)"

definition heap_visitBlock :: "block list \<Rightarrow> jsval \<Rightarrow> addr \<Rightarrow> (heap, addr option) visit" where
  "heap_visitBlock blocks resolved a h =
     (case deref h a of
        None \<Rightarrow> Inl TypeError
      | Some nd \<Rightarrow>
          (case (case h_data nd of None \<Rightarrow> None | Some d \<Rightarrow> mutationPaths d) of
             None \<Rightarrow> Inr (Some a, h)
           | Some paths \<Rightarrow>
               (case find (\<lambda>b. Some (btype b) = h_type nd) blocks of
                  None \<Rightarrow> Inl (NoBlockForType (h_type nd))
                | Some block \<Rightarrow>
                    (case resolve_joinIds resolved paths of
                       Inl e \<Rightarrow> Inl e
                     | Inr ids \<Rightarrow>
                         Inr (Some (length h),
                              h @ [nd\<lparr>h_data := Some \<lparr>mutationPaths = None, joinIds = Some ids,
                                                     props = []\<rparr>\<rparr>])))))"

definition heap_defaultVisitor :: "addr \<Rightarrow> (addr \<Rightarrow> (heap, addr) visit) \<Rightarrow> (heap, addr) visit" where
  "heap_defaultVisitor a visitNode h =
     (case deref h a of
        None \<Rightarrow> Inl TypeError
      | Some nd \<Rightarrow>
          (case h_nodes nd of
             Some cs \<Rightarrow>
               (case map_visit visitNode cs h of
                  Inl e \<Rightarrow> Inl e
                | Inr (cs', h') \<Rightarrow>
                    (case deref h' a of
                       None \<Rightarrow> Inl TypeError
                     | Some nd' \<Rightarrow> Inr (a, h'[a := nd'\<lparr>h_nodes := Some cs'\<rparr>])))
           | None \<Rightarrow> Inr (a, h)))"

text \<open>Modelled from the spec: \<^verbatim>\<open>walkSlateNode\<close> again (section 4.1, as above), on a node
  in the store.\<close>

definition heap_walkSlateNode ::
  "(addr \<Rightarrow> (heap, addr option) visit) \<Rightarrow> (addr \<Rightarrow> (heap, addr) visit) \<Rightarrow> addr \<Rightarrow> (heap, addr) visit" where
  "heap_walkSlateNode visitBlock defaultVisitor a h =
     (case deref h a of
        None \<Rightarrow> Inl TypeError
      | Some nd \<Rightarrow>
          if h_object nd = ''block'' then
            (case visitBlock a h of
               Inl e \<Rightarrow> Inl e
             | Inr (Some v, h') \<Rightarrow> Inr (v, h')
             | Inr (None, h') \<Rightarrow> defaultVisitor a h')
          else defaultVisitor a h)"

text \<open>
  The walk, for a call stack of the given depth: objects can refer to each other in a
  cycle, on which the recursion does not end but overflows the stack.
\<close>

fun heap_resolve_walk :: "nat \<Rightarrow> block list \<Rightarrow> jsval \<Rightarrow> addr \<Rightarrow> (heap, addr) visit" where
  "heap_resolve_walk 0 blocks resolved = (\<lambda>a h. Inl RangeError)"
| "heap_resolve_walk (Suc depth) blocks resolved =
     heap_walkSlateNode (heap_visitBlock blocks resolved)
       (\<lambda>m. heap_defaultVisitor m (heap_resolve_walk depth blocks resolved))"


definition heap_processSerialised ::
  "nat \<Rightarrow> addr \<Rightarrow> heap \<Rightarrow> block list \<Rightarrow> jsval \<Rightarrow> error + addr \<times> heap" where
  "heap_processSerialised depth doc h blocks graphQlArgs =
     heap_resolve_walk depth blocks (resolvedMutations blocks graphQlArgs) doc h"



text \<open>A document node at address 0 over the image block of the spec's scenario at
  address 1.\<close>

definition image_heap :: heap where
  "image_heap =
     [\<lparr>h_object = ''document'', h_type = None, h_data = None, h_nodes = Some [1], h_rest = []\<rparr>,
      \<lparr>h_object = ''block'', h_type = Some ''image'',
        h_data = Some (paths_data [''images.create[0]'']), h_nodes = None, h_rest = []\<rparr>]"

section \<open>A store that holds a tree\<close>

text \<open>The number of levels of a tree below its root.\<close>

fun height :: "node \<Rightarrow> nat" where
  "height n = (case nodes n of None \<Rightarrow> 0 | Some cs \<Rightarrow> Suc (Max (insert 0 (height ` set cs))))"

declare height.simps [simp del]

text \<open>
  The store \<open>h\<close> holds the tree \<open>t\<close> at the address \<open>a\<close>, in the cells \<open>F\<close>: each node
  of the tree is an object of its own, as in a document that \<^verbatim>\<open>JSON.parse\<close> has just
  built.
\<close>

inductive heap_repr :: "heap \<Rightarrow> addr \<Rightarrow> node \<Rightarrow> addr set \<Rightarrow> bool"
  and heap_reprs :: "heap \<Rightarrow> addr list \<Rightarrow> node list \<Rightarrow> addr set \<Rightarrow> bool" where
  leaf: "\<lbrakk>deref h a = Some nd; h_nodes nd = None\<rbrakk> \<Longrightarrow>
         heap_repr h a (Node (h_object nd) (h_type nd) (h_data nd) None (h_rest nd)) {a}"
| inner: "\<lbrakk>deref h a = Some nd; h_nodes nd = Some cs; heap_reprs h cs ts F; a \<notin> F\<rbrakk> \<Longrightarrow>
         heap_repr h a (Node (h_object nd) (h_type nd) (h_data nd) (Some ts) (h_rest nd)) (insert a F)"
| nil: "heap_reprs h [] [] {}"
| cons: "\<lbrakk>heap_repr h c t F1; heap_reprs h cs ts F2; F1 \<inter> F2 = {}\<rbrakk> \<Longrightarrow>
         heap_reprs h (c # cs) (t # ts) (F1 \<union> F2)"

code_pred heap_repr .

text \<open>What a call on a tree held in the cells \<open>F\<close> leaves behind: the store has grown, the
  result is held in cells of \<open>F\<close> and new ones, and no other cell has changed.\<close>

definition heap_post :: "heap \<Rightarrow> addr set \<Rightarrow> heap \<Rightarrow> addr set \<Rightarrow> bool" where
  "heap_post h F h' F' =
     (length h \<le> length h' \<and> F' \<subseteq> F \<union> {length h..<length h'}
      \<and> (\<forall>b<length h. b \<notin> F \<longrightarrow> h' ! b = h ! b))"

text \<open>The outcome of the walk on a tree, and that of the walk on a store that holds the
  tree: the same error, or a store that holds the resulting tree.\<close>

definition walk_sim ::
  "heap \<Rightarrow> addr set \<Rightarrow> error + node \<times> unit \<Rightarrow> error + addr \<times> heap \<Rightarrow> bool" where
  "walk_sim h F r rh =
     (case r of
        Inl e \<Rightarrow> rh = Inl e
      | Inr (t', u) \<Rightarrow> \<exists>a' h' F'. rh = Inr (a', h') \<and> heap_repr h' a' t' F' \<and> heap_post h F h' F')"

definition walks_sim ::
  "heap \<Rightarrow> addr set \<Rightarrow> error + node list \<times> unit \<Rightarrow> error + addr list \<times> heap \<Rightarrow> bool" where
  "walks_sim h F r rh =
     (case r of
        Inl e \<Rightarrow> rh = Inl e
      | Inr (ts', u) \<Rightarrow> \<exists>cs' h' F'. rh = Inr (cs', h') \<and> heap_reprs h' cs' ts' F' \<and> heap_post h F h' F')"

section \<open>Facts about the walk\<close>

lemma map_visit_Inl: "map_visit f xs s = Inl e \<Longrightarrow> \<exists>x\<in>set xs. \<exists>t. f x t = Inl e"
  by (induction xs arbitrary: s) (auto split: sum.splits prod.splits)

lemma serialise_walk_block:
  "object n = ''block'' \<Longrightarrow>
   serialise_walk val blocks n am =
     (case serialise_visitBlock val blocks n am of
        Inl e \<Rightarrow> Inl e
      | Inr (Some v, am') \<Rightarrow> Inr (v, am')
      | Inr (None, am') \<Rightarrow> serialise_defaultVisitor n (\<lambda>c t. serialise_walk val blocks c t) am')"
  by (subst serialise_walk.simps) (simp add: walkSlateNode_def)

lemma find_joins_errors: "find_joins recs ids = Inl e \<Longrightarrow> e = TypeError"
  by (induction recs ids rule: find_joins.induct) (auto split: sum.splits)

lemma deserialise_visitBlock_errors:
  "deserialise_visitBlock sz bs n s = Inl e \<Longrightarrow> e = TypeError \<or> e = NotASlateNode"
  by (auto simp: deserialise_visitBlock_def Let_def dest: find_joins_errors
           split: option.splits sum.splits if_splits)

lemma deserialise_walk_errors:
  "deserialise_walk sz bs n s = Inl e \<Longrightarrow> e = TypeError \<or> e = NotASlateNode"
proof (induction sz bs n s rule: deserialise_walk.induct)
  case (1 sz bs n s)
  have dv: "deserialise_defaultVisitor n (\<lambda>c t. deserialise_walk sz bs c t) t = Inl e
            \<Longrightarrow> e = TypeError \<or> e = NotASlateNode" for t
    using "1.IH"
    by (auto simp: deserialise_defaultVisitor_def
             split: option.splits sum.splits prod.splits dest!: map_visit_Inl)
  from "1.prems" have "walkSlateNode (deserialise_visitBlock sz bs)
       (\<lambda>m. deserialise_defaultVisitor m (\<lambda>c t. deserialise_walk sz bs c t)) n s = Inl e"
    by (subst (asm) deserialise_walk.simps)
  then show ?case
    by (auto simp: walkSlateNode_def
             split: if_splits sum.splits option.splits prod.splits
             dest: deserialise_visitBlock_errors dv)
qed

subsection \<open>The serialiser's batches\<close>













subsection \<open>The resolver\<close>

lemma map_visit_unit_Inl:
  "(\<exists>e. map_visit f xs (s::unit) = Inl e) \<longleftrightarrow> (\<exists>x\<in>set xs. \<exists>e. f x () = Inl e)"
  by (induction xs arbitrary: s) (auto split: sum.splits prod.splits)

lemma resolve_joinIds_Inl:
  "(\<exists>e. resolve_joinIds rs ps = Inl e) \<longleftrightarrow> (\<exists>p\<in>set ps. \<not> truthy (getByPath rs p))"
  by (induction ps) (auto simp: Let_def split: sum.splits)

lemma resolve_joinIds_error:
  "resolve_joinIds rs ps = Inl e \<Longrightarrow> is_ConfigurationError e"
  by (induction ps arbitrary: e) (auto simp: Let_def split: sum.splits if_splits)

lemma resolve_joinIds_truthy:
  "(\<And>p. p \<in> set ps \<Longrightarrow> truthy (getByPath rs p)) \<Longrightarrow>
   resolve_joinIds rs ps = Inr (map (getByPath rs) ps)"
  by (induction ps) (simp_all add: Let_def)

lemma resolve_joinIds_Inr:
  assumes "resolve_joinIds rs ps = Inr ids"
  shows "ids = map (getByPath rs) ps" and "\<And>p. p \<in> set ps \<Longrightarrow> truthy (getByPath rs p)"
proof -
  show t: "truthy (getByPath rs p)" if "p \<in> set ps" for p
    using assms resolve_joinIds_Inl[of rs ps] that by auto
  show "ids = map (getByPath rs) ps"
    using resolve_joinIds_truthy[of ps rs] t assms by simp
qed

lemma resolve_joinIds_cases:
  "(\<exists>e. resolve_joinIds rs ps = Inl e) \<or> (\<exists>ids. resolve_joinIds rs ps = Inr ids)"
  by (cases "resolve_joinIds rs ps") auto

lemma resolve_visitBlock_Inl:
  "(\<exists>e. resolve_visitBlock bs rs n s = Inl e) \<longleftrightarrow> dangling bs rs n"
proof (cases "node_mutationPaths n")
  case None
  then show ?thesis
    by (simp add: resolve_visitBlock_def dangling_def node_mutationPaths_def)
next
  case (Some ps)
  show ?thesis
  proof (cases "find (\<lambda>b. Some (btype b) = ntype n) bs")
    case None
    with Some show ?thesis
      by (simp add: resolve_visitBlock_def dangling_def node_mutationPaths_def)
  next
    case (Some b)
    with \<open>node_mutationPaths n = Some ps\<close> resolve_joinIds_Inl[of rs ps] show ?thesis
      by (cases "resolve_joinIds rs ps")
         (auto simp: resolve_visitBlock_def dangling_def node_mutationPaths_def)
  qed
qed

lemma resolve_visitBlock_error:
  "resolve_visitBlock bs rs n s = Inl e \<Longrightarrow> is_ConfigurationError e"
  by (auto simp: resolve_visitBlock_def split: option.splits sum.splits dest: resolve_joinIds_error)

lemma resolve_visitBlock_not_None: "resolve_visitBlock bs rs n s \<noteq> Inr (None, t)"
  by (auto simp: resolve_visitBlock_def split: option.splits sum.splits)

lemma resolve_walk_block:
  "object n = ''block'' \<Longrightarrow>
   resolve_walk bs rs n s =
     (case resolve_visitBlock bs rs n s of Inl e \<Rightarrow> Inl e | Inr (v, s') \<Rightarrow> Inr (the v, s'))"
  using resolve_visitBlock_not_None[of bs rs n s]
  by (subst resolve_walk.simps) (auto simp add: walkSlateNode_def split: sum.splits option.splits)

lemma resolve_walk_other:
  "object n \<noteq> ''block'' \<Longrightarrow>
   resolve_walk bs rs n s = resolve_defaultVisitor n (\<lambda>c t. resolve_walk bs rs c t) s"
  by (subst resolve_walk.simps) (simp add: walkSlateNode_def)

lemma resolve_walk_throws:
  "(\<exists>e. resolve_walk bs rs n s = Inl e) \<longleftrightarrow> (\<exists>m\<in>set (resolve_visited n). dangling bs rs m)"
proof (induction n arbitrary: s rule: resolve_visited.induct)
  case (1 n)
  show ?case
  proof (cases "object n = ''block''")
    case True
    then show ?thesis
      using resolve_visitBlock_Inl[of bs rs n s]
      by (auto simp: resolve_walk_block resolve_visited.simps[of n] split: sum.splits)
  next
    case False
    show ?thesis
    proof (cases "nodes n")
      case None
      with False show ?thesis
        by (simp add: resolve_walk_other resolve_visited.simps[of n] resolve_defaultVisitor_def)
    next
      case (Some cs)
      have "(\<exists>e. map_visit (\<lambda>c t. resolve_walk bs rs c t) cs s = Inl e)
            \<longleftrightarrow> (\<exists>c\<in>set cs. \<exists>m\<in>set (resolve_visited c). dangling bs rs m)"
        using "1.IH"[OF False Some] by (simp add: map_visit_unit_Inl)
      with False Some show ?thesis
        by (auto simp: resolve_walk_other resolve_visited.simps[of n] resolve_defaultVisitor_def
                 split: sum.splits)
    qed
  qed
qed

lemma resolve_walk_error:
  "resolve_walk bs rs n s = Inl e \<Longrightarrow> is_ConfigurationError e"
proof (induction bs rs n s rule: resolve_walk.induct)
  case (1 bs rs n s)
  show ?case
  proof (cases "object n = ''block''")
    case True
    with "1.prems" show ?thesis
      by (auto simp: resolve_walk_block split: sum.splits dest: resolve_visitBlock_error)
  next
    case False
    with "1.prems" "1.IH" show ?thesis
      by (auto simp: resolve_walk_other resolve_defaultVisitor_def
               split: option.splits sum.splits dest!: map_visit_Inl)
  qed
qed



subsection \<open>The deserialiser\<close>







subsection \<open>One handler, two creates\<close>








lemma resolve_walk_block':
  "object n = ''block'' \<Longrightarrow>
   resolve_walk bs rs n s =
     (case resolve_visitBlock bs rs n s of Inl e \<Rightarrow> Inl e | Inr (Some v, s') \<Rightarrow> Inr (v, s')
       | Inr (None, s') \<Rightarrow> resolve_defaultVisitor n (\<lambda>c t. resolve_walk bs rs c t) s')"
  by (subst resolve_walk.simps) (auto simp add: walkSlateNode_def split: sum.splits option.splits)

subsection \<open>The resolver on a store\<close>










subsection \<open>The walk on a store follows the walk on the tree\<close>

lemma repr_bound:
  "heap_repr h a t F \<Longrightarrow> F \<subseteq> {..<length h}"
  "heap_reprs h cs ts F \<Longrightarrow> F \<subseteq> {..<length h}"
  by (induction rule: heap_repr_heap_reprs.inducts) (auto simp: deref_def split: if_splits)

lemma repr_stable:
  "heap_repr h a t F \<Longrightarrow> length h \<le> length h1 \<Longrightarrow> (\<forall>b\<in>F. h1 ! b = h ! b) \<Longrightarrow> heap_repr h1 a t F"
  "heap_reprs h cs ts F \<Longrightarrow> length h \<le> length h1 \<Longrightarrow> (\<forall>b\<in>F. h1 ! b = h ! b) \<Longrightarrow> heap_reprs h1 cs ts F"
proof (induction rule: heap_repr_heap_reprs.inducts)
  case (leaf h a nd)
  then have "deref h1 a = Some nd" by (auto simp: deref_def split: if_splits)
  with leaf show ?case by (auto intro: heap_repr_heap_reprs.leaf)
next
  case (inner h a nd cs ts F)
  then have "deref h1 a = Some nd" by (auto simp: deref_def split: if_splits)
  with inner show ?case by (auto intro: heap_repr_heap_reprs.inner)
next
  case (nil h)
  show ?case by (rule heap_repr_heap_reprs.nil)
next
  case (cons h c t F1 cs ts F2)
  then show ?case by (auto intro: heap_repr_heap_reprs.cons)
qed


lemma visitBlock_sim:
  assumes "deref h a = Some nd"
    and "t = Node (h_object nd) (h_type nd) (h_data nd) ns (h_rest nd)"
  shows "case resolve_visitBlock bs rs t () of
           Inl e \<Rightarrow> heap_visitBlock bs rs a h = Inl e
         | Inr (r, u) \<Rightarrow>
             (r = Some t \<and> heap_visitBlock bs rs a h = Inr (Some a, h))
             \<or> (\<exists>D. r = Some (Node (h_object nd) (h_type nd) (Some D) ns (h_rest nd))
                    \<and> heap_visitBlock bs rs a h
                        = Inr (Some (length h), h @ [nd\<lparr>h_data := Some D\<rparr>]))"
  using assms
  by (auto simp: resolve_visitBlock_def heap_visitBlock_def split: option.splits sum.splits)

lemma heap_walk_block:
  "deref h a = Some nd \<Longrightarrow> h_object nd = ''block'' \<Longrightarrow>
   heap_resolve_walk (Suc d) bs rs a h =
     (case heap_visitBlock bs rs a h of
        Inl e \<Rightarrow> Inl e
      | Inr (Some v, h') \<Rightarrow> Inr (v, h')
      | Inr (None, h') \<Rightarrow> heap_defaultVisitor a (heap_resolve_walk d bs rs) h')"
  by (simp add: heap_walkSlateNode_def)

lemma heap_walk_other:
  "deref h a = Some nd \<Longrightarrow> h_object nd \<noteq> ''block'' \<Longrightarrow>
   heap_resolve_walk (Suc d) bs rs a h = heap_defaultVisitor a (heap_resolve_walk d bs rs) h"
  by (simp add: heap_walkSlateNode_def)

lemma heap_post_refl: "heap_post h F h F"
  by (simp add: heap_post_def)

lemma block_sim:
  assumes dr: "deref h a = Some nd" and blk: "h_object nd = ''block''"
    and t: "t = Node (h_object nd) (h_type nd) (h_data nd) ns (h_rest nd)"
    and r: "heap_repr h a t (insert a F)"
    and copy: "\<And>D. heap_repr (h @ [nd\<lparr>h_data := Some D\<rparr>]) (length h)
                  (Node (h_object nd) (h_type nd) (Some D) ns (h_rest nd)) (insert (length h) F)"
  shows "walk_sim h (insert a F) (resolve_walk bs rs t ()) (heap_resolve_walk (Suc d) bs rs a h)"
proof -
  have ob: "object t = ''block''" using t blk by simp
  note vs = visitBlock_sim[OF dr t, of bs rs]
  show ?thesis
  proof (cases "resolve_visitBlock bs rs t ()")
    case (Inl e)
    with vs show ?thesis
      by (simp add: walk_sim_def resolve_walk_block'[OF ob] heap_walk_block[OF dr blk]
            del: heap_resolve_walk.simps)
  next
    case (Inr p)
    obtain r' u where p: "p = (r', u)" by (cases p)
    from vs Inr p consider
      (same) "r' = Some t" "heap_visitBlock bs rs a h = Inr (Some a, h)"
      | (copy) D where "r' = Some (Node (h_object nd) (h_type nd) (Some D) ns (h_rest nd))"
          "heap_visitBlock bs rs a h = Inr (Some (length h), h @ [nd\<lparr>h_data := Some D\<rparr>])"
      by auto
    then show ?thesis
    proof cases
      case same
      with Inr p r show ?thesis
        by (auto simp: walk_sim_def resolve_walk_block'[OF ob] heap_walk_block[OF dr blk]
              heap_post_refl simp del: heap_resolve_walk.simps)
    next
      case copy
      have "heap_post h (insert a F) (h @ [nd\<lparr>h_data := Some D\<rparr>]) (insert (length h) F)"
        by (auto simp: heap_post_def nth_append)
      with Inr p copy show ?thesis
        using assms(5)[of D]
        by (auto simp: walk_sim_def resolve_walk_block'[OF ob] heap_walk_block[OF dr blk]
                 simp del: heap_resolve_walk.simps)
    qed
  qed
qed


lemma height_child:
  assumes "nodes n = Some cs" "height n < Suc d"
  shows "\<forall>c\<in>set cs. height c < d"
proof -
  from assms have "0 < d \<and> (\<forall>a\<in>set cs. height a < d)"
    by (subst (asm) height.simps) simp
  then show ?thesis by simp
qed

lemma height_pos: "height n < d \<Longrightarrow> \<exists>d'. d = Suc d'"
  by (cases d) simp_all

lemma deref_agree:
  "deref h a = Some nd \<Longrightarrow> length h \<le> length h1 \<Longrightarrow> h1 ! a = h ! a \<Longrightarrow> deref h1 a = Some nd"
  by (auto simp: deref_def split: if_splits)

lemma resolve_sim:
  "heap_repr h a t F \<Longrightarrow>
     \<forall>h1 d. length h \<le> length h1 \<longrightarrow> (\<forall>b\<in>F. h1 ! b = h ! b) \<longrightarrow> height t < d \<longrightarrow>
       walk_sim h1 F (resolve_walk bs rs t ()) (heap_resolve_walk d bs rs a h1)"
  "heap_reprs h cs ts F \<Longrightarrow>
     \<forall>h1 d. length h \<le> length h1 \<longrightarrow> (\<forall>b\<in>F. h1 ! b = h ! b) \<longrightarrow> (\<forall>t\<in>set ts. height t < d) \<longrightarrow>
       walks_sim h1 F (map_visit (\<lambda>c u. resolve_walk bs rs c u) ts ())
         (map_visit (heap_resolve_walk d bs rs) cs h1)"
proof (induction rule: heap_repr_heap_reprs.inducts)
  case (leaf h a nd)
  define t where "t = Node (h_object nd) (h_type nd) (h_data nd) None (h_rest nd)"
  show ?case
  proof (intro allI impI)
    fix h1 d
    assume len: "length h \<le> length h1" and agree: "\<forall>b\<in>{a}. h1 ! b = h ! b"
      and hd: "height (Node (h_object nd) (h_type nd) (h_data nd) None (h_rest nd)) < d"
    from height_pos[OF hd] obtain d' where d: "d = Suc d'" by blast
    have dr: "deref h1 a = Some nd"
      using deref_agree[OF leaf(1) len] agree by simp
    have r1: "heap_repr h1 a t (insert a {})"
      unfolding t_def using heap_repr_heap_reprs.leaf[OF dr leaf(2)] by simp
    show "walk_sim h1 {a} (resolve_walk bs rs (Node (h_object nd) (h_type nd) (h_data nd) None (h_rest nd)) ())
            (heap_resolve_walk d bs rs a h1)"
    proof (cases "h_object nd = ''block''")
      case True
      have "heap_repr (h1 @ [nd\<lparr>h_data := Some D\<rparr>]) (length h1)
                  (Node (h_object nd) (h_type nd) (Some D) None (h_rest nd)) (insert (length h1) {})" for D
        using heap_repr_heap_reprs.leaf[of "h1 @ [nd\<lparr>h_data := Some D\<rparr>]" "length h1"
                "nd\<lparr>h_data := Some D\<rparr>"] leaf(2)
        by (simp add: deref_def)
      from block_sim[OF dr True t_def r1 this, of bs rs d'] show ?thesis
        by (simp add: d t_def del: heap_resolve_walk.simps)
    next
      case False
      have "resolve_walk bs rs t () = Inr (t, ())"
        using False by (simp add: resolve_walk_other t_def resolve_defaultVisitor_def)
      moreover have "heap_resolve_walk d bs rs a h1 = Inr (a, h1)"
        using leaf(2) by (simp add: d heap_walk_other[OF dr False] heap_defaultVisitor_def dr
                             del: heap_resolve_walk.simps)
      ultimately show ?thesis
        using r1 by (auto simp: walk_sim_def t_def heap_post_refl)
    qed
  qed
next
  case (inner h a nd cs ts F)
  define t where "t = Node (h_object nd) (h_type nd) (h_data nd) (Some ts) (h_rest nd)"
  from repr_bound(2)[OF inner(3)] have Fb: "F \<subseteq> {..<length h}" .
  from inner(1) have ah: "a < length h" by (auto simp: deref_def split: if_splits)
  show ?case
  proof (intro allI impI)
    fix h1 d
    assume len: "length h \<le> length h1" and agree: "\<forall>b\<in>insert a F. h1 ! b = h ! b"
      and hd: "height (Node (h_object nd) (h_type nd) (h_data nd) (Some ts) (h_rest nd)) < d"
    from height_pos[OF hd] obtain d' where d: "d = Suc d'" by blast
    have hts: "\<forall>t\<in>set ts. height t < d'"
      using height_child[of t ts d'] hd by (simp add: t_def d)
    have dr: "deref h1 a = Some nd"
      using deref_agree[OF inner(1) len] agree by simp
    have rs1: "heap_reprs h1 cs ts F"
      using repr_stable(2)[OF inner(3) len] agree by simp
    have r1: "heap_repr h1 a t (insert a F)"
      unfolding t_def by (rule heap_repr_heap_reprs.inner[OF dr inner(2) rs1 inner(4)])
    have "walk_sim h1 (insert a F) (resolve_walk bs rs t ()) (heap_resolve_walk d bs rs a h1)"
    proof (cases "h_object nd = ''block''")
      case True
      have "heap_repr (h1 @ [nd\<lparr>h_data := Some D\<rparr>]) (length h1)
                  (Node (h_object nd) (h_type nd) (Some D) (Some ts) (h_rest nd))
                  (insert (length h1) F)" for D
      proof -
        have 1: "deref (h1 @ [nd\<lparr>h_data := Some D\<rparr>]) (length h1) = Some (nd\<lparr>h_data := Some D\<rparr>)"
          by (simp add: deref_def)
        have "\<forall>b\<in>F. (h1 @ [nd\<lparr>h_data := Some D\<rparr>]) ! b = h1 ! b"
          using Fb len by (auto simp: nth_append)
        then have 2: "heap_reprs (h1 @ [nd\<lparr>h_data := Some D\<rparr>]) cs ts F"
          by (intro repr_stable(2)[OF rs1]) simp_all
        have 3: "length h1 \<notin> F" using Fb len by auto
        from heap_repr_heap_reprs.inner[OF 1 _ 2 3] inner(2) show ?thesis by simp
      qed
      from block_sim[OF dr True t_def r1 this, of bs rs d'] show ?thesis
        by (simp add: d del: heap_resolve_walk.simps)
    next
      case False
      let ?pm = "map_visit (\<lambda>c u. resolve_walk bs rs c u) ts ()"
      let ?hm = "map_visit (heap_resolve_walk d' bs rs) cs h1"
      have IH: "walks_sim h1 F ?pm ?hm"
        using inner.IH len agree hts by simp
      have pw: "resolve_walk bs rs t () =
                  (case ?pm of Inl e \<Rightarrow> Inl e | Inr (ts', u) \<Rightarrow> Inr (set_nodes (Some ts') t, u))"
        using False unfolding t_def by (simp add: resolve_walk_other resolve_defaultVisitor_def)
      have hw: "heap_resolve_walk d bs rs a h1 =
                  (case ?hm of
                     Inl e \<Rightarrow> Inl e
                   | Inr (cs', h') \<Rightarrow>
                       (case deref h' a of
                          None \<Rightarrow> Inl TypeError
                        | Some nd' \<Rightarrow> Inr (a, h'[a := nd'\<lparr>h_nodes := Some cs'\<rparr>])))"
        using inner(2)
        by (simp add: d heap_walk_other[OF dr False] heap_defaultVisitor_def dr
              del: heap_resolve_walk.simps)
      show ?thesis
      proof (cases ?pm)
        case (Inl e)
        with IH show ?thesis by (simp add: walks_sim_def walk_sim_def pw hw)
      next
        case (Inr p)
        obtain ts' u where p: "p = (ts', u)" by (cases p)
        from IH Inr p obtain cs' h2 F' where
          hm: "?hm = Inr (cs', h2)" and rs2: "heap_reprs h2 cs' ts' F'" and po: "heap_post h1 F h2 F'"
          by (auto simp: walks_sim_def)
        from po have l2: "length h1 \<le> length h2" and F': "F' \<subseteq> F \<union> {length h1..<length h2}"
          and un: "\<forall>b<length h1. b \<notin> F \<longrightarrow> h2 ! b = h1 ! b"
          by (simp_all add: heap_post_def)
        have a1: "a < length h1" using ah len by simp
        have "h2 ! a = h1 ! a" using un a1 inner(4) by simp
        with dr l2 have dr2: "deref h2 a = Some nd" by (intro deref_agree[of h1 a nd h2])
        define h' where "h' = h2[a := nd\<lparr>h_nodes := Some cs'\<rparr>]"
        have res: "heap_resolve_walk d bs rs a h1 = Inr (a, h')"
          by (simp add: hw hm dr2 h'_def)
        have aF': "a \<notin> F'" using F' inner(4) a1 by auto
        have "h' ! b = h2 ! b" if "b \<in> F'" for b
        proof -
          from that aF' have "a \<noteq> b" by blast
          then show ?thesis by (simp add: h'_def)
        qed
        then have "\<forall>b\<in>F'. h' ! b = h2 ! b" by blast
        then have rs': "heap_reprs h' cs' ts' F'"
          by (intro repr_stable(2)[OF rs2]) (simp_all add: h'_def)
        have dr': "deref h' a = Some (nd\<lparr>h_nodes := Some cs'\<rparr>)"
          using a1 l2 by (simp add: deref_def h'_def)
        have "heap_repr h' a (set_nodes (Some ts') t) (insert a F')"
          using heap_repr_heap_reprs.inner[OF dr' _ rs' aF'] by (simp add: t_def)
        moreover have "heap_post h1 (insert a F) h' (insert a F')"
          using l2 F' un by (auto simp: heap_post_def h'_def nth_list_update)
        ultimately show ?thesis
          by (auto simp: walk_sim_def pw Inr p res)
      qed
    qed
    then show "walk_sim h1 (insert a F)
            (resolve_walk bs rs (Node (h_object nd) (h_type nd) (h_data nd) (Some ts) (h_rest nd)) ())
            (heap_resolve_walk d bs rs a h1)"
      by (simp add: t_def)
  qed
next
  case (nil h)
  show ?case
    by (auto simp: walks_sim_def heap_post_refl intro: heap_repr_heap_reprs.nil)
next
  case (cons h c t F1 cs ts F2)
  from repr_bound(1)[OF cons(1)] have F1b: "F1 \<subseteq> {..<length h}" .
  from repr_bound(2)[OF cons(2)] have F2b: "F2 \<subseteq> {..<length h}" .
  show ?case
  proof (intro allI impI)
    fix h1 d
    assume len: "length h \<le> length h1" and agree: "\<forall>b\<in>F1 \<union> F2. h1 ! b = h ! b"
      and hts: "\<forall>t\<in>set (t # ts). height t < d"
    let ?pw = "resolve_walk bs rs t ()"
    let ?hw = "heap_resolve_walk d bs rs c h1"
    have IH1: "walk_sim h1 F1 ?pw ?hw"
      using cons.IH(1) len agree hts by simp
    show "walks_sim h1 (F1 \<union> F2) (map_visit (\<lambda>c u. resolve_walk bs rs c u) (t # ts) ())
            (map_visit (heap_resolve_walk d bs rs) (c # cs) h1)"
    proof (cases ?pw)
      case (Inl e)
      with IH1 show ?thesis by (simp add: walk_sim_def walks_sim_def)
    next
      case (Inr p)
      obtain t' u where p: "p = (t', u)" by (cases p)
      from IH1 Inr p obtain c' h2 F1' where
        hw: "?hw = Inr (c', h2)" and r2: "heap_repr h2 c' t' F1'" and po1: "heap_post h1 F1 h2 F1'"
        by (auto simp: walk_sim_def)
      from po1 have l2: "length h1 \<le> length h2" and F1': "F1' \<subseteq> F1 \<union> {length h1..<length h2}"
        and un1: "\<forall>b<length h1. b \<notin> F1 \<longrightarrow> h2 ! b = h1 ! b"
        by (simp_all add: heap_post_def)
      have F1lt: "x < length h" if "x \<in> F1" for x using that F1b by auto
      have F2lt: "x < length h" if "x \<in> F2" for x using that F2b by auto
      have F1'c: "x \<in> F1 \<or> length h1 \<le> x" if "x \<in> F1'" for x using that F1' by auto
      have "h2 ! b = h ! b" if "b \<in> F2" for b
      proof -
        from F2lt[OF that] len have "b < length h1" by simp
        moreover from that cons(3) have "b \<notin> F1" by blast
        ultimately have "h2 ! b = h1 ! b" using un1 by blast
        with agree that show ?thesis by simp
      qed
      then have ag2: "\<forall>b\<in>F2. h2 ! b = h ! b" by blast
      let ?pm = "map_visit (\<lambda>c u. resolve_walk bs rs c u) ts ()"
      let ?hm = "map_visit (heap_resolve_walk d bs rs) cs h2"
      have IH2: "walks_sim h2 F2 ?pm ?hm"
        using cons.IH(2) len l2 ag2 hts by simp
      show ?thesis
      proof (cases ?pm)
        case (Inl e)
        with IH2 Inr p hw show ?thesis by (simp add: walks_sim_def)
      next
        case Inr2: (Inr q)
        obtain ts' u' where q: "q = (ts', u')" by (cases q)
        from IH2 Inr2 q obtain cs' h3 F2' where
          hm: "?hm = Inr (cs', h3)" and rs3: "heap_reprs h3 cs' ts' F2'"
          and po2: "heap_post h2 F2 h3 F2'"
          by (auto simp: walks_sim_def)
        from po2 have l3: "length h2 \<le> length h3" and F2': "F2' \<subseteq> F2 \<union> {length h2..<length h3}"
          and un2: "\<forall>b<length h2. b \<notin> F2 \<longrightarrow> h3 ! b = h2 ! b"
          by (simp_all add: heap_post_def)
        from repr_bound(1)[OF r2] have F1'b: "F1' \<subseteq> {..<length h2}" .
        have F1'lt: "x < length h2" if "x \<in> F1'" for x using that F1'b by auto
        have F2'c: "x \<in> F2 \<or> length h2 \<le> x" if "x \<in> F2'" for x using that F2' by auto
        have notF2: "x \<notin> F2" if "x \<in> F1'" for x
        proof
          assume x2: "x \<in> F2"
          from F1'c[OF that] show False
          proof
            assume "x \<in> F1" with x2 cons(3) show False by blast
          next
            assume "length h1 \<le> x" with F2lt[OF x2] len show False by simp
          qed
        qed
        have dis: "F1' \<inter> F2' = {}"
        proof (rule ccontr)
          assume "F1' \<inter> F2' \<noteq> {}"
          then obtain x where x1: "x \<in> F1'" and x2: "x \<in> F2'" by blast
          from F2'c[OF x2] notF2[OF x1] F1'lt[OF x1] show False by simp
        qed
        have "h3 ! b = h2 ! b" if "b \<in> F1'" for b
          using un2 F1'lt[OF that] notF2[OF that] by blast
        then have "\<forall>b\<in>F1'. h3 ! b = h2 ! b" by blast
        from repr_stable(1)[OF r2 l3 this] have r3: "heap_repr h3 c' t' F1'" .
        have rr: "heap_reprs h3 (c' # cs') (t' # ts') (F1' \<union> F2')"
          by (rule heap_repr_heap_reprs.cons[OF r3 rs3 dis])
        have sub: "F1' \<union> F2' \<subseteq> F1 \<union> F2 \<union> {length h1..<length h3}"
        proof
          fix x assume "x \<in> F1' \<union> F2'"
          then show "x \<in> F1 \<union> F2 \<union> {length h1..<length h3}"
          proof
            assume x1: "x \<in> F1'"
            with F1'c[OF x1] F1'lt[OF x1] l3 show ?thesis by auto
          next
            assume x2: "x \<in> F2'"
            from repr_bound(2)[OF rs3] x2 have "x < length h3" by auto
            with F2'c[OF x2] l2 show ?thesis by auto
          qed
        qed
        have "h3 ! b = h1 ! b" if "b < length h1" "b \<notin> F1 \<union> F2" for b
        proof -
          from that l2 have "h3 ! b = h2 ! b" using un2 by simp
          also from that have "h2 ! b = h1 ! b" using un1 by simp
          finally show ?thesis .
        qed
        with l2 l3 sub have po: "heap_post h1 (F1 \<union> F2) h3 (F1' \<union> F2')"
          by (simp add: heap_post_def)
        show ?thesis
          using Inr p hw Inr2 q hm rr po by (auto simp: walks_sim_def)
      qed
    qed
  qed
qed

section \<open>Positional integrity\<close>




section \<open>What the walks do to their input\<close>




section \<open>A block whose handler returns no node\<close>

text \<open>
  Claim C3, as stated, fails: the image block under a document node, whose handler
  returns neither a node nor mutations, is still in the output, as its own JSON
  projection.
\<close>

theorem serialise_no_node_counterexample:
  "(case serialiseSlateValue
           \<lparr>document = Node ''document'' None None (Some [image_node (Some file_data)]) []\<rparr>
           [''image'' \<mapsto> image_block (Some ''images'') \<lparr>mutations = None, node = None\<rparr>
                             (Inl JNull) []] of
      Inl e \<Rightarrow> None
    | Inr result \<Rightarrow> result ''document'')
   = Some (Document (Node ''document'' None None (Some [image_node (Some file_data)]) []))"
  by code_simp

text \<open>
  Claim C3, amended. For a block node whose registered handler's \<open>serialize\<close> returns no
  node and no mutations, \<open>visitBlock\<close> returns \<^verbatim>\<open>null\<close>, the walker falls through to the
  default visitor, and the block stays in the output as its structural JSON projection
  with its children visited in turn; a block without children comes out as it is.
\<close>

theorem serialise_no_node:
  assumes "object n = ''block''"
    and "blocks (prop_key (ntype n)) = Some block"
    and "node (serialize block val n) = None"
    and "\<not> has_mutations (mutations (serialize block val n))"
  shows "serialise_visitBlock val blocks n am = Inr (None, am)
       \<and> serialise_walk val blocks n am
           = serialise_defaultVisitor n (\<lambda>c t. serialise_walk val blocks c t) am
       \<and> (nodes n = None \<longrightarrow> serialise_walk val blocks n am = Inr (n, am))"
proof -
  have vb: "serialise_visitBlock val blocks n am = Inr (None, am)"
    using assms(2,3,4) by (simp add: serialise_visitBlock_def Let_def)
  then have w: "serialise_walk val blocks n am
           = serialise_defaultVisitor n (\<lambda>c t. serialise_walk val blocks c t) am"
    by (simp add: serialise_walk_block[OF assms(1)])
  have "serialise_walk val blocks n am = Inr (n, am)" if "nodes n = None"
    using that by (simp add: w serialise_defaultVisitor_def shallowNodeToJson_def)
  with vb w show ?thesis by simp
qed

theorem serialise_no_node_witness:
  "serialise_walk \<lparr>document = image_node (Some file_data)\<rparr>
     [''image'' \<mapsto> image_block (Some ''images'') \<lparr>mutations = None, node = None\<rparr> (Inl JNull) []]
     (image_node (Some file_data)) Map.empty
   = Inr (image_node (Some file_data), Map.empty)"
proof -
  let ?n = "image_node (Some file_data)"
  let ?b = "image_block (Some ''images'') \<lparr>mutations = None, node = None\<rparr> (Inl JNull) []"
  have "object ?n = ''block''" and "[''image'' \<mapsto> ?b] (prop_key (ntype ?n)) = Some ?b"
    and "node (serialize ?b \<lparr>document = ?n\<rparr> ?n) = None"
    and "\<not> has_mutations (mutations (serialize ?b \<lparr>document = ?n\<rparr> ?n))"
    and "nodes ?n = None"
    by (simp_all add: image_node_def prop_key_def image_block_def has_mutations_def)
  note f = this
  from serialise_no_node[where n = ?n and blocks = "[''image'' \<mapsto> ?b]" and block = ?b
        and val = "\<lparr>document = ?n\<rparr>" and am = Map.empty, OF f(1-4)]
  have "nodes ?n = None \<longrightarrow>
        serialise_walk \<lparr>document = ?n\<rparr> [''image'' \<mapsto> ?b] ?n Map.empty = Inr (?n, Map.empty)"
    by blast
  with f(5) show ?thesis by blast
qed

section \<open>Batch defaulting\<close>




section \<open>Resolver error conditions\<close>

lemma processSerialised_Inl:
  "processSerialised doc blocks args = Inl e \<longleftrightarrow>
   resolve_walk blocks (resolvedMutations blocks args) doc () = Inl e"
  by (auto simp: processSerialised_def split: sum.splits)

text \<open>
  Claim C5, as stated, fails: a block that carries \<^verbatim>\<open>data._mutationPaths\<close> inside
  another block is never visited, so with no handler registered at all nothing is thrown
  and the document comes back as it went in.
\<close>

theorem resolve_error_conditions_counterexample:
  "node_mutationPaths (image_node (Some (paths_data [''images.create[0]''])))
     = Some [''images.create[0]'']
   \<and> find (\<lambda>b. Some (btype b) = ntype (image_node (Some (paths_data [''images.create[0]''])))) []
     = None
   \<and> processSerialised (quote_node (image_node (Some (paths_data [''images.create[0]'']))))
       [] JNull
     = Inr \<lparr>document = quote_node (image_node (Some (paths_data [''images.create[0]''])))\<rparr>"
  by code_simp

text \<open>
  Claim C5, amended. The resolver throws exactly when some block that its walk visits (a
  block not inside another block) carries \<^verbatim>\<open>data._mutationPaths\<close> and has no handler
  of its type or a path that looks up to a falsy value; what it throws is then a
  configuration error. When no visited block is in that state it returns a document.
\<close>

theorem resolve_error_conditions:
  "(throws_ConfigurationError (processSerialised doc blocks args)
      \<longleftrightarrow> (\<exists>n\<in>set (resolve_visited doc). dangling blocks (resolvedMutations blocks args) n))
   \<and> ((\<exists>v. processSerialised doc blocks args = Inr v)
      \<longleftrightarrow> \<not> (\<exists>n\<in>set (resolve_visited doc). dangling blocks (resolvedMutations blocks args) n))"
proof -
  let ?rs = "resolvedMutations blocks args"
  let ?D = "\<exists>n\<in>set (resolve_visited doc). dangling blocks ?rs n"
  have thr: "(\<exists>e. processSerialised doc blocks args = Inl e) \<longleftrightarrow> ?D"
    using resolve_walk_throws[of blocks ?rs doc "()"] by (simp add: processSerialised_Inl)
  have "is_ConfigurationError e" if "processSerialised doc blocks args = Inl e" for e
    using that resolve_walk_error[of blocks ?rs doc "()" e] by (simp add: processSerialised_Inl)
  then have cfg: "throws_ConfigurationError (processSerialised doc blocks args)
             \<longleftrightarrow> (\<exists>e. processSerialised doc blocks args = Inl e)"
    by (cases "processSerialised doc blocks args") (auto simp: throws_ConfigurationError_def)
  have ok: "(\<exists>v. processSerialised doc blocks args = Inr v)
            \<longleftrightarrow> \<not> (\<exists>e. processSerialised doc blocks args = Inl e)"
    by (cases "processSerialised doc blocks args") auto
  show ?thesis using thr cfg ok by simp
qed

text \<open>An image block with a path and no handler at all: the resolver throws.\<close>

theorem resolve_error_conditions_witness:
  "throws_ConfigurationError
     (processSerialised (image_node (Some (paths_data [''images.create[0]'']))) [] JNull)"
  using resolve_error_conditions[of "image_node (Some (paths_data [''images.create[0]'']))" "[]" JNull]
  by (simp add: resolve_visited.simps image_node_def dangling_def node_mutationPaths_def
        paths_data_def)

section \<open>Serialiser error conditions\<close>

text \<open>
  Claim C6. Let a block node have a registered handler. If the handler's \<open>serialize\<close>
  returns a non-empty mutations map and no node, serialising the node throws the
  missing-node error; if it returns a non-empty mutations map and a node but the handler
  has no path, serialising throws the missing-path error; both are configuration errors.
  If the mutations map is empty or absent, \<open>visitBlock\<close> returns the handler's node (or
  nothing) and leaves the batches as they were: neither check fires.
\<close>

theorem serialise_error_conditions:
  assumes "object n = ''block''"
    and "blocks (prop_key (ntype n)) = Some block"
    and "r = serialize block val n"
  shows "(has_mutations (mutations r) \<and> node r = None \<longrightarrow>
            serialise_walk val blocks n am = Inl MissingSerializedNode
            \<and> throws_ConfigurationError (serialise_walk val blocks n am))
       \<and> (has_mutations (mutations r) \<and> node r \<noteq> None \<and> no_path (path block) \<longrightarrow>
            serialise_walk val blocks n am = Inl (NoMutationPath (btype block))
            \<and> throws_ConfigurationError (serialise_walk val blocks n am))
       \<and> (\<not> has_mutations (mutations r) \<longrightarrow>
            serialise_visitBlock val blocks n am = Inr (node r, am))"
proof -
  have vb1: "serialise_visitBlock val blocks n am = Inl MissingSerializedNode"
    if "has_mutations (mutations r)" "node r = None"
    using that assms(2,3) by (simp add: serialise_visitBlock_def Let_def)
  have vb2: "serialise_visitBlock val blocks n am = Inl (NoMutationPath (btype block))"
    if "has_mutations (mutations r)" "node r \<noteq> None" "no_path (path block)"
    using that assms(2,3) by (auto simp: serialise_visitBlock_def Let_def)
  have vb3: "serialise_visitBlock val blocks n am = Inr (node r, am)"
    if "\<not> has_mutations (mutations r)"
    using that assms(2,3) by (simp add: serialise_visitBlock_def Let_def)
  show ?thesis
    using vb1 vb2 vb3
    by (auto simp add: serialise_walk_block[OF assms(1)] throws_ConfigurationError_def)
qed

text \<open>
  The three cases at the image node: mutations without a node; mutations and a node from
  a handler without a path; no mutations.
\<close>

theorem serialise_error_conditions_witness:
  "serialise_walk \<lparr>document = image_node None\<rparr>
     [''image'' \<mapsto> image_block (Some ''images'')
        \<lparr>mutations = Some [(''create'', JNull)], node = None\<rparr> (Inl JNull) []]
     (image_node None) Map.empty = Inl MissingSerializedNode
   \<and> serialise_walk \<lparr>document = image_node None\<rparr>
     [''image'' \<mapsto> image_block None
        \<lparr>mutations = Some [(''create'', JNull)], node = Some (image_node None)\<rparr> (Inl JNull) []]
     (image_node None) Map.empty = Inl (NoMutationPath ''image'')
   \<and> serialise_visitBlock \<lparr>document = image_node None\<rparr>
     [''image'' \<mapsto> image_block None
        \<lparr>mutations = Some [], node = Some (image_node None)\<rparr> (Inl JNull) []]
     (image_node None) Map.empty = Inr (Some (image_node None), Map.empty)"
proof -
  let ?n = "image_node None"
  let ?val = "\<lparr>document = ?n\<rparr>"
  let ?b1 = "image_block (Some ''images'')
               \<lparr>mutations = Some [(''create'', JNull)], node = None\<rparr> (Inl JNull) []"
  let ?b2 = "image_block None
               \<lparr>mutations = Some [(''create'', JNull)], node = Some ?n\<rparr> (Inl JNull) []"
  let ?b3 = "image_block None \<lparr>mutations = Some [], node = Some ?n\<rparr> (Inl JNull) []"
  have blk: "object ?n = ''block''" and key: "prop_key (ntype ?n) = ''image''"
    by (simp_all add: image_node_def prop_key_def)
  have c1: "serialise_walk ?val [''image'' \<mapsto> ?b1] ?n Map.empty = Inl MissingSerializedNode"
    using serialise_error_conditions[OF blk, of "[''image'' \<mapsto> ?b1]" ?b1 _ ?val Map.empty]
    by (simp add: key image_block_def has_mutations_def)
  have c2: "serialise_walk ?val [''image'' \<mapsto> ?b2] ?n Map.empty = Inl (NoMutationPath ''image'')"
    using serialise_error_conditions[OF blk, of "[''image'' \<mapsto> ?b2]" ?b2 _ ?val Map.empty]
    by (simp add: key image_block_def has_mutations_def no_path_def)
  have c3: "serialise_visitBlock ?val [''image'' \<mapsto> ?b3] ?n Map.empty = Inr (Some ?n, Map.empty)"
    using serialise_error_conditions[OF blk, of "[''image'' \<mapsto> ?b3]" ?b3 _ ?val Map.empty]
    by (simp add: key image_block_def has_mutations_def)
  show ?thesis using c1 c2 c3 by simp
qed

section \<open>What the resolver changes\<close>

text \<open>
  Claim C7, as stated, fails for a block that carries no \<^verbatim>\<open>data._mutationPaths\<close>: it
  is returned as it is and its children are not visited, while the default structural
  recursion would have resolved the image block inside it.
\<close>

theorem resolve_frame_counterexample:
  "resolve_walk [image_block (Some ''images'') \<lparr>mutations = None, node = None\<rparr> (Inl JNull) []]
       (JObj (images_results [JStr ''abc123'']))
       (quote_node (image_node (Some (paths_data [''images.create[0]'']))))  ()
     = Inr (quote_node (image_node (Some (paths_data [''images.create[0]'']))), ())
   \<and> resolve_defaultVisitor (quote_node (image_node (Some (paths_data [''images.create[0]'']))))
       (\<lambda>c t. resolve_walk
          [image_block (Some ''images'') \<lparr>mutations = None, node = None\<rparr> (Inl JNull) []]
          (JObj (images_results [JStr ''abc123''])) c t) ()
     = Inr (quote_node (image_node
              (Some \<lparr>mutationPaths = None, joinIds = Some [JStr ''abc123''], props = []\<rparr>)), ())"
  by code_simp

text \<open>
  Claim C7, amended. A block that carries \<^verbatim>\<open>data._mutationPaths\<close> and resolves comes out
  with its data replaced by \<^verbatim>\<open>{ _joinIds }\<close>, the looked-up value of each path in
  order, and with every other field, its children among them, as it was. A block that
  carries none is returned as it is, children unvisited. Every node that is not a block
  goes through the default structural recursion.
\<close>

theorem resolve_frame:
  "(object n = ''block'' \<and> node_mutationPaths n = Some ps
      \<and> resolve_walk blocks resolved n s = Inr (n', s') \<longrightarrow>
        data n' = Some \<lparr>mutationPaths = None, joinIds = Some (map (getByPath resolved) ps), props = []\<rparr>
        \<and> object n' = object n \<and> ntype n' = ntype n \<and> nodes n' = nodes n \<and> rest n' = rest n)
   \<and> (object n = ''block'' \<and> node_mutationPaths n = None \<longrightarrow>
        resolve_walk blocks resolved n s = Inr (n, s))
   \<and> (object n \<noteq> ''block'' \<longrightarrow>
        resolve_walk blocks resolved n s
          = resolve_defaultVisitor n (\<lambda>c t. resolve_walk blocks resolved c t) s)"
proof -
  have c1: "data n' = Some \<lparr>mutationPaths = None,
                 joinIds = Some (map (getByPath resolved) ps), props = []\<rparr>
        \<and> object n' = object n \<and> ntype n' = ntype n \<and> nodes n' = nodes n \<and> rest n' = rest n"
    if a: "object n = ''block''" "node_mutationPaths n = Some ps"
          "resolve_walk blocks resolved n s = Inr (n', s')"
  proof -
    from a have "n' = set_data (Some \<lparr>mutationPaths = None,
                 joinIds = Some (map (getByPath resolved) ps), props = []\<rparr>) n"
      by (auto simp: resolve_walk_block resolve_visitBlock_def node_mutationPaths_def
               split: option.splits sum.splits dest!: resolve_joinIds_Inr(1))
    then show ?thesis by (cases n) simp
  qed
  have c2: "resolve_walk blocks resolved n s = Inr (n, s)"
    if "object n = ''block''" "node_mutationPaths n = None"
    using that
    by (auto simp: resolve_walk_block resolve_visitBlock_def node_mutationPaths_def
             split: option.splits)
  have c3: "resolve_walk blocks resolved n s
          = resolve_defaultVisitor n (\<lambda>c t. resolve_walk blocks resolved c t) s"
    if "object n \<noteq> ''block''"
    using that by (rule resolve_walk_other)
  show ?thesis using c1 c2 c3 by blast
qed

text \<open>The three cases: the image block of the spec's scenario, the block around it, and
  a document node above both.\<close>

theorem resolve_frame_witness:
  "data (image_node (Some \<lparr>mutationPaths = None, joinIds = Some [JStr ''abc123''], props = []\<rparr>))
     = Some \<lparr>mutationPaths = None,
             joinIds = Some (map (getByPath (JObj (images_results [JStr ''abc123''])))
                               [''images.create[0]'']),
             props = []\<rparr>
   \<and> resolve_walk [] JNull (quote_node (image_node None)) () = Inr (quote_node (image_node None), ())
   \<and> resolve_walk [] JNull (Node ''document'' None None None []) ()
     = resolve_defaultVisitor (Node ''document'' None None None [])
         (\<lambda>c t. resolve_walk [] JNull c t) ()"
proof -
  let ?b = "image_block (Some ''images'') \<lparr>mutations = None, node = None\<rparr> (Inl JNull) []"
  let ?rs = "JObj (images_results [JStr ''abc123''])"
  let ?n = "image_node (Some (paths_data [''images.create[0]'']))"
  let ?n' = "image_node (Some \<lparr>mutationPaths = None, joinIds = Some [JStr ''abc123''], props = []\<rparr>)"
  have run: "resolve_walk [?b] ?rs ?n () = Inr (?n', ())"
    by code_simp
  have c1: "data ?n' = Some \<lparr>mutationPaths = None,
               joinIds = Some (map (getByPath ?rs) [''images.create[0]'']), props = []\<rparr>"
    using resolve_frame[of ?n "[''images.create[0]'']" "[?b]" ?rs "()" ?n' "()"] run
    by (simp add: image_node_def node_mutationPaths_def paths_data_def)
  have c2: "resolve_walk [] JNull (quote_node (image_node None)) ()
              = Inr (quote_node (image_node None), ())"
    using resolve_frame[of "quote_node (image_node None)" _ "[]" JNull "()"]
    by (simp add: quote_node_def node_mutationPaths_def)
  have c3: "resolve_walk [] JNull (Node ''document'' None None None []) ()
     = resolve_defaultVisitor (Node ''document'' None None None [])
         (\<lambda>c t. resolve_walk [] JNull c t) ()"
    using resolve_frame[of "Node ''document'' None None None []" _ "[]" JNull "()"]
    by simp
  show ?thesis using c1 c2 c3 by simp
qed

section \<open>Join resolution in the deserialiser\<close>




section \<open>Deserialiser preconditions\<close>

text \<open>
  Claim C9. Called without a document, or without the handler map, \<open>deserialise\<close> throws
  the assertion error, a precondition error, whatever its other arguments are: nothing
  is processed before. Called with both, it throws no precondition error.
\<close>

theorem deserialise_preconditions:
  "deserialiseToSlateValue None serializations blocks
     = Inl (AssertionError ''Must pass document to deserialiseToSlateValue()'')
   \<and> deserialiseToSlateValue (Some d) serializations None
     = Inl (AssertionError ''Must pass blocks to deserialiseToSlateValue()'')
   \<and> throws_PreconditionError (deserialiseToSlateValue None serializations blocks)
   \<and> throws_PreconditionError (deserialiseToSlateValue doc serializations None)
   \<and> \<not> throws_PreconditionError (deserialiseToSlateValue (Some d) serializations (Some bs))"
proof -
  have "\<not> throws_PreconditionError (deserialiseToSlateValue (Some d) serializations (Some bs))"
    by (auto simp: deserialiseToSlateValue_def throws_PreconditionError_def Let_def
             split: sum.splits prod.splits dest: deserialise_walk_errors)
  moreover have "throws_PreconditionError (deserialiseToSlateValue doc serializations None)"
    by (cases doc) (simp_all add: deserialiseToSlateValue_def throws_PreconditionError_def)
  ultimately show ?thesis
    by (simp add: deserialiseToSlateValue_def throws_PreconditionError_def)
qed

section \<open>Join ids without a record\<close>




section \<open>The store and the tree agree\<close>

text \<open>
  The two models of \<^verbatim>\<open>processSerialised\<close> agree on a store that holds a tree, provided
  the call stack is deeper than the tree: they throw the same error, or the call on the
  store returns (it does not overflow the stack) and leaves a store that holds the
  document the call on the tree returns. So what is proved of the resolver on trees
  holds of it on a freshly parsed document.
\<close>

theorem heap_refines_tree:
  assumes "heap_repr h a t F" and "height t < depth"
  shows "case processSerialised t blocks args of
           Inl e \<Rightarrow> heap_processSerialised depth a h blocks args = Inl e
         | Inr v \<Rightarrow>
             \<exists>a' h' F'. heap_processSerialised depth a h blocks args = Inr (a', h')
                       \<and> heap_repr h' a' (document v) F'"
proof -
  let ?rs = "resolvedMutations blocks args"
  from resolve_sim(1)[OF assms(1), of blocks ?rs] assms(2)
  have "walk_sim h F (resolve_walk blocks ?rs t ()) (heap_resolve_walk depth blocks ?rs a h)"
    by simp
  then show ?thesis
    by (auto simp: walk_sim_def processSerialised_def heap_processSerialised_def
             split: sum.splits)
qed

text \<open>The store of the example holds the document of the spec's scenario, so the theorem
  applies to it: the call on the store returns a store that holds the resolved document.\<close>

lemma image_heap_repr:
  "heap_repr image_heap 0
     (Node ''document'' None None (Some [image_node (Some (paths_data [''images.create[0]'']))]) [])
     {0, 1}"
proof -
  have 1: "heap_repr image_heap 1 (image_node (Some (paths_data [''images.create[0]'']))) {1}"
    using heap_repr_heap_reprs.leaf[of image_heap 1 "image_heap ! 1"]
    by (simp add: deref_def image_heap_def image_node_def)
  have "heap_reprs image_heap [1] [image_node (Some (paths_data [''images.create[0]'']))] ({1} \<union> {})"
    by (rule heap_repr_heap_reprs.cons[OF 1 heap_repr_heap_reprs.nil]) simp
  then have 2: "heap_reprs image_heap [1] [image_node (Some (paths_data [''images.create[0]'']))] {1}"
    by simp
  show ?thesis
    using heap_repr_heap_reprs.inner[of image_heap 0 "image_heap ! 0" "[1]", OF _ _ 2]
    by (simp add: deref_def image_heap_def)
qed

lemma heap_refines_tree_example:
  "\<exists>a' h' F'.
     heap_processSerialised 2 0 image_heap [pair_block ''images'' [JStr ''abc123'']] JNull
       = Inr (a', h')
     \<and> heap_repr h' a'
         (Node ''document'' None None (Some [image_node (Some (joins_data [JStr ''abc123'']))]) [])
         F'"
proof -
  let ?t = "Node ''document'' None None
              (Some [image_node (Some (paths_data [''images.create[0]'']))]) []"
  let ?bs = "[pair_block ''images'' [JStr ''abc123'']]"
  have h: "height ?t < 2"
    by (simp add: height.simps image_node_def)
  have p: "processSerialised ?t ?bs JNull
             = Inr \<lparr>document = Node ''document'' None None
                                  (Some [image_node (Some (joins_data [JStr ''abc123'']))]) []\<rparr>"
    by code_simp
  from heap_refines_tree[OF image_heap_repr h, of ?bs JNull] show ?thesis
    unfolding p by simp
qed

section \<open>The spec's scenarios\<close>

text \<open>
  Section 8 of the spec gives three scenarios for an image block. The model computes
  them: serialising the block under a document node; resolving the serialised block
  against a handler whose results are \<^verbatim>\<open>{ images: { create: ['abc123'] } }\<close>; and
  deserialising the resolved block with the fetched record.
\<close>

lemma scenario_serialise:
  "(case serialiseSlateValue
           \<lparr>document = Node ''document'' None None (Some [image_node (Some file_data)]) []\<rparr>
           [''image'' \<mapsto> image_block (Some ''images'') create_file (Inl JNull) []] of
      Inl e \<Rightarrow> []
    | Inr result \<Rightarrow> [result ''document'', result ''images''])
   = [Some (Document (Node ''document'' None None
                        (Some [image_node (Some (paths_data [''images.create[0]'']))]) [])),
      Some (Batch [(''disconnectAll'', JBool True),
                   (''create'', JArr [JObj [(''file'', JStr ''F''), (''align'', JStr ''center'')]])])]"
  by code_simp

lemma scenario_resolve:
  "processSerialised
     (Node ''document'' None None (Some [image_node (Some (paths_data [''images.create[0]'']))]) [])
     [image_block (Some ''images'') create_file (Inl JNull) (images_results [JStr ''abc123''])] JNull
   = Inr \<lparr>document = Node ''document'' None None
                         (Some [image_node (Some (joins_data [JStr ''abc123'']))]) []\<rparr>"
  by code_simp

lemma scenario_deserialise:
  "deserialiseToSlateValue
     (Some (Node ''document'' None None (Some [image_node (Some (joins_data [JStr ''abc123'']))]) []))
     [''images'' \<mapsto> [image_record]]
     (Some [''image'' \<mapsto> image_block (Some ''images'') create_file
                           (Inr (image_node (Some file_data))) []])
   = Inr \<lparr>document = Node ''document'' None None (Some [image_node (Some file_data)]) []\<rparr>"
  by code_simp

end
